theory Spec2Isabelle
  imports Complex_Main "HOL-Library.AList" "HOL-Library.Multiset"
begin

section \<open>Python strings\<close>

text \<open>
  A Python \<open>str\<close> is modelled as a \<open>string\<close> (a list of 8-bit characters) holding its
  UTF-8 encoding. Every operation below that classifies characters (\<open>split\<close>,
  \<open>splitlines\<close>, \<open>lower\<close>, \<open>upper\<close>, the regular expression class \<open>\w\<close>) is
  modelled on the ASCII range, where one character is one byte; non-ASCII text is carried
  through unchanged.
\<close>

definition LF :: char where "LF = CHR 0x0A"
definition CR :: char where "CR = CHR 0x0D"
definition TAB :: char where "TAB = CHR 0x09"

text \<open>\<open>s.startswith(p)\<close>, \<open>s.endswith(p)\<close> and the substring test \<open>sub in s\<close>.\<close>

definition startswith :: "string \<Rightarrow> string \<Rightarrow> bool" where
  "startswith s p = (take (length p) s = p)"

definition endswith :: "string \<Rightarrow> string \<Rightarrow> bool" where
  "endswith s p = (length p \<le> length s \<and> drop (length s - length p) s = p)"

fun str_contains :: "string \<Rightarrow> string \<Rightarrow> bool" where
  "str_contains [] sub = (sub = [])"
| "str_contains (c # cs) sub = (startswith (c # cs) sub \<or> str_contains cs sub)"

text \<open>
  \<open>s.replace(old, new)\<close>: every non-overlapping occurrence, scanning from the left.
  With an empty \<open>old\<close> Python inserts \<open>new\<close> before every character and at the end.
\<close>

function replace_scan :: "string \<Rightarrow> string \<Rightarrow> string \<Rightarrow> string" where
  "replace_scan old new s =
     (if s = [] then []
      else if old \<noteq> [] \<and> startswith s old
        then new @ replace_scan old new (drop (length old) s)
      else hd s # replace_scan old new (tl s))"
  by pat_completeness auto
termination
  by (relation "measure (\<lambda>(old, new, s). length s)") auto

definition py_replace :: "string \<Rightarrow> string \<Rightarrow> string \<Rightarrow> string" where
  "py_replace s old new =
     (if old = [] then new @ concat (map (\<lambda>c. c # new) s) else replace_scan old new s)"

text \<open>\<open>sep.join(xs)\<close>.\<close>

fun join :: "string \<Rightarrow> string list \<Rightarrow> string" where
  "join sep [] = []"
| "join sep [x] = x"
| "join sep (x # y # ys) = x @ sep @ join sep (y # ys)"

text \<open>\<open>s.split(sep)\<close> for a one-character separator: the result is never empty.\<close>

fun split_char_from :: "char \<Rightarrow> string \<Rightarrow> string \<Rightarrow> string list" where
  "split_char_from sep cur [] = [cur]"
| "split_char_from sep cur (c # cs) =
     (if c = sep then cur # split_char_from sep [] cs
      else split_char_from sep (cur @ [c]) cs)"

definition split_char :: "char \<Rightarrow> string \<Rightarrow> string list" where
  "split_char sep s = split_char_from sep [] s"

text \<open>
  \<open>s.split()\<close>: the words between runs of whitespace, none of them empty. The ASCII
  whitespace of \<open>str.isspace\<close> is \<open>\t \n \v \f \r\<close>, \<open>0x1c\<close>..\<open>0x1f\<close> and the space.
\<close>

definition is_space :: "char \<Rightarrow> bool" where
  "is_space c = (let n = of_char c :: nat in (9 \<le> n \<and> n \<le> 13) \<or> (28 \<le> n \<and> n \<le> 32))"

fun split_ws_from :: "string \<Rightarrow> string \<Rightarrow> string list" where
  "split_ws_from cur [] = (if cur = [] then [] else [cur])"
| "split_ws_from cur (c # cs) =
     (if is_space c then (if cur = [] then split_ws_from [] cs else cur # split_ws_from [] cs)
      else split_ws_from (cur @ [c]) cs)"

definition split_ws :: "string \<Rightarrow> string list" where
  "split_ws s = split_ws_from [] s"

text \<open>
  \<open>s.splitlines()\<close>: the ASCII line boundaries are \<open>\n\<close>, \<open>\r\<close>, \<open>\r\n\<close> (one
  boundary), \<open>\v\<close>, \<open>\f\<close> and \<open>0x1c\<close>..\<open>0x1e\<close>; a final boundary opens no empty
  last line. A \<open>\r\<close> right before \<open>\n\<close> is skipped, and the \<open>\n\<close> ends the line.
\<close>

definition is_linebreak :: "char \<Rightarrow> bool" where
  "is_linebreak c = (let n = of_char c :: nat in (10 \<le> n \<and> n \<le> 13) \<or> (28 \<le> n \<and> n \<le> 30))"

fun splitlines_from :: "string \<Rightarrow> string \<Rightarrow> string list" where
  "splitlines_from cur [] = (if cur = [] then [] else [cur])"
| "splitlines_from cur (c # cs) =
     (if c = CR \<and> cs \<noteq> [] \<and> hd cs = LF then splitlines_from cur cs
      else if is_linebreak c then cur # splitlines_from [] cs
      else splitlines_from (cur @ [c]) cs)"

definition splitlines :: "string \<Rightarrow> string list" where
  "splitlines s = splitlines_from [] s"

text \<open>\<open>s.lower()\<close> and \<open>s.upper()\<close> on ASCII letters.\<close>

definition lower_char :: "char \<Rightarrow> char" where
  "lower_char c = (let n = of_char c :: nat in if 65 \<le> n \<and> n \<le> 90 then char_of (n + 32) else c)"

definition upper_char :: "char \<Rightarrow> char" where
  "upper_char c = (let n = of_char c :: nat in if 97 \<le> n \<and> n \<le> 122 then char_of (n - 32) else c)"

definition lower :: "string \<Rightarrow> string" where
  "lower s = map lower_char s"

definition upper :: "string \<Rightarrow> string" where
  "upper s = map upper_char s"

text \<open>The class \<open>\w\<close> of a regular expression: ASCII letters, digits and the underscore.\<close>

definition is_word_char :: "char \<Rightarrow> bool" where
  "is_word_char c =
     (let n = of_char c :: nat
      in (48 \<le> n \<and> n \<le> 57) \<or> (65 \<le> n \<and> n \<le> 90) \<or> (97 \<le> n \<and> n \<le> 122) \<or> n = 95)"

text \<open>List slices \<open>xs[i:]\<close> and \<open>xs[:i]\<close>: a negative index counts from the end.\<close>

definition slice_from :: "'a list \<Rightarrow> int \<Rightarrow> 'a list" where
  "slice_from xs i = (if 0 \<le> i then drop (nat i) xs else drop (nat (int (length xs) + i)) xs)"

definition slice_to :: "'a list \<Rightarrow> int \<Rightarrow> 'a list" where
  "slice_to xs i = (if 0 \<le> i then take (nat i) xs else take (nat (int (length xs) + i)) xs)"

text \<open>The decimal numeral of an integer, as \<open>str\<close> prints it.\<close>

fun digits :: "nat \<Rightarrow> string" where
  "digits n =
     (if n < 10 then [char_of (48 + n)] else digits (n div 10) @ [char_of (48 + n mod 10)])"

definition str_int :: "int \<Rightarrow> string" where
  "str_int i = (if i < 0 then CHR ''-'' # digits (nat (- i)) else digits (nat i))"


section \<open>Values and exceptions\<close>

text \<open>
  The values of node properties, of the compiled IR and of signals are the values of a
  JSON document. A dictionary keeps its insertion order: it is an association list whose
  keys are pairwise distinct. A float is carried as the text \<open>repr\<close> prints for it; no
  operation modelled here does float arithmetic.
\<close>

datatype "value" =
    VNull
  | VBool bool
  | VInt int
  | VFloat string
  | VStr string
  | VList "value list"
  | VDict "(string \<times> value) list"

type_synonym dict = "(string \<times> value) list"

text \<open>
  An exception is its class and the text \<open>str(e)\<close> gives. The texts of the exceptions the
  interpreter raises by itself follow CPython 3.11, a method named without its class.
\<close>

datatype exc_class =
    ValueError | TypeError | AttributeError | KeyError
  | FileNotFoundError | IsADirectoryError | NotADirectoryError | ReError

datatype error = Error exc_class string

fun exc_text :: "error \<Rightarrow> string" where
  "exc_text (Error c msg) = msg"

fun type_name :: "value \<Rightarrow> string" where
  "type_name VNull = ''NoneType''"
| "type_name (VBool b) = ''bool''"
| "type_name (VInt i) = ''int''"
| "type_name (VFloat r) = ''float''"
| "type_name (VStr s) = ''str''"
| "type_name (VList xs) = ''list''"
| "type_name (VDict kvs) = ''dict''"

definition no_attribute :: "value \<Rightarrow> string \<Rightarrow> error" where
  "no_attribute v a =
     Error AttributeError
       ([CHR 0x27] @ type_name v @ [CHR 0x27] @ '' object has no attribute '' @
        [CHR 0x27] @ a @ [CHR 0x27])"

text \<open>Truth value of a value in a condition (\<open>if v:\<close>).\<close>

fun truthy :: "value \<Rightarrow> bool" where
  "truthy VNull = False"
| "truthy (VBool b) = b"
| "truthy (VInt i) = (i \<noteq> 0)"
| "truthy (VFloat r) = (r \<noteq> ''0.0'' \<and> r \<noteq> ''-0.0'')"
| "truthy (VStr s) = (s \<noteq> [])"
| "truthy (VList xs) = (xs \<noteq> [])"
| "truthy (VDict kvs) = (kvs \<noteq> [])"

text \<open>
  \<open>repr\<close> of a string: single quotes, unless the string has a single quote and no double
  quote; backslash, the quote in use, \<open>\n\<close>, \<open>\r\<close>, \<open>\t\<close> escaped, the other ASCII
  control characters as \<open>\xhh\<close>.
\<close>

definition hex_digit :: "nat \<Rightarrow> char" where
  "hex_digit n = (if n < 10 then char_of (48 + n) else char_of (87 + n))"

definition repr_char :: "char \<Rightarrow> char \<Rightarrow> string" where
  "repr_char q c =
     (let n = of_char c :: nat in
      if c = CHR 0x5C then [CHR 0x5C, CHR 0x5C]
      else if c = q then [CHR 0x5C, q]
      else if c = LF then [CHR 0x5C, CHR ''n'']
      else if c = CR then [CHR 0x5C, CHR ''r'']
      else if c = TAB then [CHR 0x5C, CHR ''t'']
      else if n < 32 \<or> n = 127 then [CHR 0x5C, CHR ''x'', hex_digit (n div 16), hex_digit (n mod 16)]
      else [c])"

definition repr_str :: "string \<Rightarrow> string" where
  "repr_str s =
     (let q = (if CHR 0x27 \<in> set s \<and> CHR 0x22 \<notin> set s then CHR 0x22 else CHR 0x27)
      in [q] @ concat (map (repr_char q) s) @ [q])"

fun py_repr :: "value \<Rightarrow> string"
  and repr_items :: "value list \<Rightarrow> string list"
  and repr_pairs :: "(string \<times> value) list \<Rightarrow> string list" where
  "py_repr VNull = ''None''"
| "py_repr (VBool b) = (if b then ''True'' else ''False'')"
| "py_repr (VInt i) = str_int i"
| "py_repr (VFloat r) = r"
| "py_repr (VStr s) = repr_str s"
| "py_repr (VList xs) = ''['' @ join '', '' (repr_items xs) @ '']''"
| "py_repr (VDict kvs) = ''{'' @ join '', '' (repr_pairs kvs) @ ''}''"
| "repr_items [] = []"
| "repr_items (x # xs) = py_repr x # repr_items xs"
| "repr_pairs [] = []"
| "repr_pairs ((k, v) # kvs) = (repr_str k @ '': '' @ py_repr v) # repr_pairs kvs"

text \<open>\<open>str(v)\<close>: a string is itself, every other value prints as its \<open>repr\<close>.\<close>

definition py_str :: "value \<Rightarrow> string" where
  "py_str v = (case v of VStr s \<Rightarrow> s | _ \<Rightarrow> py_repr v)"

text \<open>
  Dictionary access: \<open>d.get(k, default)\<close> and \<open>k in d\<close> on a dictionary, and the same
  on any value, where \<open>.get\<close> exists on dictionaries only and \<open>v[k]\<close> with a string key
  succeeds on a dictionary that has the key.
\<close>

definition dict_get :: "dict \<Rightarrow> string \<Rightarrow> value \<Rightarrow> value" where
  "dict_get d k dflt = (case map_of d k of None \<Rightarrow> dflt | Some v \<Rightarrow> v)"

definition has_key :: "dict \<Rightarrow> string \<Rightarrow> bool" where
  "has_key d k = (map_of d k \<noteq> None)"

definition py_get :: "value \<Rightarrow> string \<Rightarrow> value \<Rightarrow> error + value" where
  "py_get v k dflt = (case v of VDict d \<Rightarrow> Inr (dict_get d k dflt) | _ \<Rightarrow> Inl (no_attribute v ''get''))"

definition subscript :: "value \<Rightarrow> string \<Rightarrow> error + value" where
  "subscript v k =
     (case v of
        VDict d \<Rightarrow> (case map_of d k of None \<Rightarrow> Inl (Error KeyError (repr_str k)) | Some x \<Rightarrow> Inr x)
      | VList xs \<Rightarrow> Inl (Error TypeError ''list indices must be integers or slices, not str'')
      | VStr s \<Rightarrow> Inl (Error TypeError (''string indices must be integers, not '' @ repr_str ''str''))
      | _ \<Rightarrow> Inl (Error TypeError ([CHR 0x27] @ type_name v @ [CHR 0x27] @ '' object is not subscriptable'')))"

text \<open>What a \<open>for\<close> loop iterates over: list elements, dictionary keys, characters.\<close>

definition py_iter :: "value \<Rightarrow> error + value list" where
  "py_iter v =
     (case v of
        VList xs \<Rightarrow> Inr xs
      | VDict d \<Rightarrow> Inr (map (\<lambda>kv. VStr (fst kv)) d)
      | VStr s \<Rightarrow> Inr (map (\<lambda>c. VStr [c]) s)
      | _ \<Rightarrow> Inl (Error TypeError ([CHR 0x27] @ type_name v @ [CHR 0x27] @ '' object is not iterable'')))"


section \<open>Selector operations (chord_runtime)\<close>

text \<open>
  An operation is \<open>execute(data, params)\<close>; \<open>params\<close> is the whole selector record.
  A slice bound must be an integer, a boolean or \<open>None\<close>.
\<close>

definition slice_index :: "value \<Rightarrow> error + int option" where
  "slice_index v =
     (case v of
        VNull \<Rightarrow> Inr None
      | VInt i \<Rightarrow> Inr (Some i)
      | VBool b \<Rightarrow> Inr (Some (if b then 1 else 0))
      | _ \<Rightarrow> Inl (Error TypeError ''slice indices must be integers or None or have an __index__ method''))"

text \<open>Unary minus, as in \<open>-lines\<close>: defined on numbers only.\<close>

definition negate :: "value \<Rightarrow> error + value" where
  "negate v =
     (case v of
        VInt i \<Rightarrow> Inr (VInt (- i))
      | VBool b \<Rightarrow> Inr (VInt (if b then - 1 else 0))
      | VFloat r \<Rightarrow> Inr (VFloat (if startswith r ''-'' then tl r else CHR ''-'' # r))
      | _ \<Rightarrow> Inl (Error TypeError (''bad operand type for unary -: '' @ [CHR 0x27] @ type_name v @ [CHR 0x27])))"

text \<open>\<open>HeadSelector.execute\<close>: the first \<open>lines\<close> lines (default 100), newline-joined.\<close>

definition HeadSelector_execute :: "value \<Rightarrow> dict \<Rightarrow> error + value" where
  "HeadSelector_execute data params =
     (let lines = dict_get params ''lines'' (VInt 100) in
      case data of
        VStr s \<Rightarrow>
          (case slice_index lines of
             Inl e \<Rightarrow> Inl e
           | Inr None \<Rightarrow> Inr (VStr (join [LF] (splitlines s)))
           | Inr (Some i) \<Rightarrow> Inr (VStr (join [LF] (slice_to (splitlines s) i))))
      | _ \<Rightarrow> Inr data)"

text \<open>\<open>TailSelector.execute\<close>: the slice \<open>data.splitlines()[-lines:]\<close>, newline-joined.\<close>

definition TailSelector_execute :: "value \<Rightarrow> dict \<Rightarrow> error + value" where
  "TailSelector_execute data params =
     (let lines = dict_get params ''lines'' (VInt 100) in
      case data of
        VStr s \<Rightarrow>
          (case negate lines of
             Inl e \<Rightarrow> Inl e
           | Inr m \<Rightarrow>
               (case slice_index m of
                  Inl e \<Rightarrow> Inl e
                | Inr None \<Rightarrow> Inr (VStr (join [LF] (splitlines s)))
                | Inr (Some i) \<Rightarrow> Inr (VStr (join [LF] (slice_from (splitlines s) i)))))
      | _ \<Rightarrow> Inr data)"


text \<open>
  \<open>SemanticSearchSelector.execute\<close>. The score of a line is the number of words the
  line's lower-cased word set shares with the query's. \<open>list.sort(key=..., reverse=True)\<close>
  is a stable sort into descending key order: elements with equal keys keep their order,
  which is the stable ascending sort by the negated key.
\<close>

definition score_line :: "string list \<Rightarrow> string \<Rightarrow> nat" where
  "score_line query_words line = card (set query_words \<inter> set (split_ws (lower line)))"

definition scored_lines :: "string \<Rightarrow> string list \<Rightarrow> (nat \<times> string) list" where
  "scored_lines query lines =
     filter (\<lambda>p. 0 < fst p) (map (\<lambda>line. (score_line (split_ws (lower query)) line, line)) lines)"

definition sort_by_score_reverse :: "(nat \<times> string) list \<Rightarrow> (nat \<times> string) list" where
  "sort_by_score_reverse xs = sort_key (\<lambda>p. - int (fst p)) xs"

definition SemanticSearchSelector_execute :: "value \<Rightarrow> dict \<Rightarrow> error + value" where
  "SemanticSearchSelector_execute data params =
     (let query = dict_get params ''query'' (VStr []);
          top_k = dict_get params ''top_k'' (VInt 5)
      in case data of
           VStr s \<Rightarrow>
             (case query of
                VStr q \<Rightarrow>
                  (let ranked = sort_by_score_reverse (scored_lines q (splitlines s)) in
                   case slice_index top_k of
                     Inl e \<Rightarrow> Inl e
                   | Inr None \<Rightarrow> Inr (VStr (join [LF] (map snd ranked)))
                   | Inr (Some k) \<Rightarrow> Inr (VStr (join [LF] (map snd (slice_to ranked k)))))
              | _ \<Rightarrow> Inl (no_attribute query ''lower''))
         | _ \<Rightarrow> Inl (no_attribute data ''splitlines''))"


section \<open>The compiler (chord_compiler)\<close>

datatype NodeType =
    CTX | CAP | ROLE | POLICY | MODEL | TASK | FLOW | VIEW | SIGNAL | MEMORY | HOOK | TEST | CACHE

fun NodeType_value :: "NodeType \<Rightarrow> string" where
  "NodeType_value CTX = ''ctx''"
| "NodeType_value CAP = ''cap''"
| "NodeType_value ROLE = ''role''"
| "NodeType_value POLICY = ''policy''"
| "NodeType_value MODEL = ''model''"
| "NodeType_value TASK = ''task''"
| "NodeType_value FLOW = ''flow''"
| "NodeType_value VIEW = ''view''"
| "NodeType_value SIGNAL = ''signal''"
| "NodeType_value MEMORY = ''memory''"
| "NodeType_value HOOK = ''hook''"
| "NodeType_value TEST = ''test''"
| "NodeType_value CACHE = ''cache''"

record Node =
  node_type :: NodeType
  node_id :: string
  properties :: dict
  metadata :: "value"
  node_line :: nat

text \<open>\<open>Graph.nodes\<close>: the nodes by id, in declaration order.\<close>

record Graph =
  graph_nodes :: "(string \<times> Node) list"
  graph_metadata :: dict
  graph_imports :: "string list"

text \<open>
  The loop of \<open>resolve_reference\<close> over \<open>parts[1:]\<close>: one level per segment while the
  current value is a dictionary that has the segment; \<open>None\<close> is the early return of the
  unresolved reference.
\<close>

fun navigate :: "value \<Rightarrow> string list \<Rightarrow> value option" where
  "navigate v [] = Some v"
| "navigate v (part # parts) =
     (case v of
        VDict d \<Rightarrow> (case map_of d part of Some x \<Rightarrow> navigate x parts | None \<Rightarrow> None)
      | _ \<Rightarrow> None)"

definition resolve_reference :: "Graph \<Rightarrow> string \<Rightarrow> error + value" where
  "resolve_reference g ref0 =
     (if \<not> startswith ref0 ''@'' then Inr (VStr ref0)
      else
        let ref = drop 1 ref0 in
        if startswith ref ''{'' \<and> endswith ref ''}'' then Inr (VStr (''@'' @ ''{'' @ butlast (tl ref) @ ''}''))
        else
          let parts = split_char (CHR ''.'') ref; nid = hd parts in
          case map_of (graph_nodes g) nid of
            None \<Rightarrow> Inl (Error ValueError (''Unknown reference: @'' @ ref))
          | Some node \<Rightarrow>
              if length parts = 1 then Inr (VStr (''@'' @ nid))
              else (case navigate (VDict (properties node)) (tl parts) of
                      Some v \<Rightarrow> Inr v
                    | None \<Rightarrow> Inr (VStr (''@'' @ ref))))"

text \<open>
  The list comprehension of \<open>compile_node\<close> and \<open>compile_object\<close>: an element that is a
  string starting with \<open>@\<close> is resolved, every other element is copied as it is.
\<close>

definition compile_element :: "Graph \<Rightarrow> value \<Rightarrow> error + value" where
  "compile_element g v =
     (case v of
        VStr s \<Rightarrow> if startswith s ''@'' then resolve_reference g s else Inr v
      | _ \<Rightarrow> Inr v)"

fun compile_elements :: "Graph \<Rightarrow> value list \<Rightarrow> error + value list" where
  "compile_elements g [] = Inr []"
| "compile_elements g (v # vs) =
     (case compile_element g v of
        Inl e \<Rightarrow> Inl e
      | Inr v' \<Rightarrow> (case compile_elements g vs of Inl e \<Rightarrow> Inl e | Inr vs' \<Rightarrow> Inr (v' # vs')))"

text \<open>
  \<open>compile_object\<close>: the entries in order, the first failing resolution raised.
  \<open>compile_entry\<close> is the \<open>if\<close>/\<open>elif\<close> chain of the loop body.
\<close>

fun compile_object :: "Graph \<Rightarrow> (string \<times> value) list \<Rightarrow> error + (string \<times> value) list"
  and compile_entry :: "Graph \<Rightarrow> value \<Rightarrow> error + value" where
  "compile_object g [] = Inr []"
| "compile_object g ((key, v) # kvs) =
     (case compile_entry g v of
        Inl e \<Rightarrow> Inl e
      | Inr v' \<Rightarrow>
          (case compile_object g kvs of Inl e \<Rightarrow> Inl e | Inr kvs' \<Rightarrow> Inr ((key, v') # kvs')))"
| "compile_entry g (VStr s) = (if startswith s ''@'' then resolve_reference g s else Inr (VStr s))"
| "compile_entry g (VList vs) =
     (case compile_elements g vs of Inl e \<Rightarrow> Inl e | Inr vs' \<Rightarrow> Inr (VList vs'))"
| "compile_entry g (VDict d) =
     (case compile_object g d of Inl e \<Rightarrow> Inl e | Inr d' \<Rightarrow> Inr (VDict d'))"
| "compile_entry g VNull = Inr VNull"
| "compile_entry g (VBool b) = Inr (VBool b)"
| "compile_entry g (VInt i) = Inr (VInt i)"
| "compile_entry g (VFloat r) = Inr (VFloat r)"

text \<open>
  \<open>compile_node\<close>: its loop over the node's properties is the loop of \<open>compile_object\<close>,
  branch for branch; \<open>metadata\<close> is added when it is not empty.
\<close>

definition compile_node :: "Graph \<Rightarrow> Node \<Rightarrow> error + value" where
  "compile_node g node =
     (case compile_object g (properties node) of
        Inl e \<Rightarrow> Inl e
      | Inr props \<Rightarrow>
          Inr (VDict ([(''type'', VStr (NodeType_value (node_type node))),
                       (''id'', VStr (node_id node)),
                       (''properties'', VDict props)]
                      @ (if truthy (metadata node) then [(''metadata'', metadata node)] else []))))"

text \<open>
  \<open>compile_view\<close>: the view record, with every selector that is a dictionary compiled by
  \<open>compile_object\<close>.
\<close>

definition compile_selector :: "Graph \<Rightarrow> value \<Rightarrow> error + value" where
  "compile_selector g sel =
     (case sel of
        VDict d \<Rightarrow> (case compile_object g d of Inl e \<Rightarrow> Inl e | Inr d' \<Rightarrow> Inr (VDict d'))
      | _ \<Rightarrow> Inr sel)"

fun compile_selectors :: "Graph \<Rightarrow> value list \<Rightarrow> error + value list" where
  "compile_selectors g [] = Inr []"
| "compile_selectors g (sel # sels) =
     (case compile_selector g sel of
        Inl e \<Rightarrow> Inl e
      | Inr sel' \<Rightarrow>
          (case compile_selectors g sels of Inl e \<Rightarrow> Inl e | Inr sels' \<Rightarrow> Inr (sel' # sels')))"

definition compile_view :: "Graph \<Rightarrow> Node \<Rightarrow> error + value" where
  "compile_view g node =
     (let p = properties node in
      case py_iter (dict_get p ''selectors'' (VList [])) of
        Inl e \<Rightarrow> Inl e
      | Inr sels \<Rightarrow>
          (case compile_selectors g sels of
             Inl e \<Rightarrow> Inl e
           | Inr sels' \<Rightarrow>
               Inr (VDict [(''id'', VStr (node_id node)),
                           (''type'', VStr ''view''),
                           (''task'', dict_get p ''task'' VNull),
                           (''role'', dict_get p ''role'' VNull),
                           (''model'', dict_get p ''model'' VNull),
                           (''policy'', dict_get p ''policy'' VNull),
                           (''selectors'', VList sels'),
                           (''prompt'', dict_get p ''prompt'' (VDict [])),
                           (''response_format'', dict_get p ''response_format'' VNull),
                           (''post_process'', dict_get p ''post_process'' (VList [])),
                           (''asserts'', dict_get p ''asserts'' (VList []))])))"

text \<open>\<open>compile_flow\<close>: the flow record without its \<open>None\<close> fields; the edges are copied.\<close>

definition compile_flow :: "Node \<Rightarrow> value" where
  "compile_flow node =
     (let p = properties node in
      VDict (filter (\<lambda>kv. snd kv \<noteq> VNull)
        [(''id'', VStr (node_id node)),
         (''type'', VStr ''flow''),
         (''entry'', dict_get p ''entry'' VNull),
         (''edges'', dict_get p ''edges'' (VList [])),
         (''parallel'', dict_get p ''parallel'' VNull),
         (''sequential'', dict_get p ''sequential'' VNull),
         (''conditional'', dict_get p ''conditional'' VNull),
         (''error_handling'', dict_get p ''error_handling'' VNull),
         (''schedule'', dict_get p ''schedule'' VNull)]))"

text \<open>Example graphs used to run the compiler on concrete input.\<close>

definition example_graph :: Graph where
  "example_graph =
     \<lparr>graph_nodes =
        [(''node'', \<lparr>node_type = ROLE, node_id = ''node'',
                     properties = [(''a'', VDict [(''b'', VStr ''x'')])],
                     metadata = VDict [], node_line = 1\<rparr>)],
      graph_metadata = [], graph_imports = []\<rparr>"

definition example_referrer :: Node where
  "example_referrer =
     \<lparr>node_type = TASK, node_id = ''t'',
      properties = [(''hit'', VStr ''@node.a.b''), (''miss'', VStr ''@node.a.z'')],
      metadata = VDict [], node_line = 4\<rparr>"

definition nesting_node :: Node where
  "nesting_node =
     \<lparr>node_type = ROLE, node_id = ''n'',
      properties =
        [(''a'', VStr ''x''),
         (''direct'', VStr ''@n.a''),
         (''in_array'', VList [VStr ''@n.a'']),
         (''in_mapping'', VDict [(''r'', VDict [(''s'', VStr ''@n.a'')])]),
         (''mapping_in_array'', VList [VDict [(''r'', VStr ''@n.a'')]])],
      metadata = VDict [], node_line = 1\<rparr>"

definition nesting_graph :: Graph where
  "nesting_graph = \<lparr>graph_nodes = [(''n'', nesting_node)], graph_metadata = [], graph_imports = []\<rparr>"


section \<open>The runtime (chord_runtime)\<close>

text \<open>
  What the runtime reads from outside the program is part of its state: the files
  (\<open>Path.exists\<close>, \<open>open\<close>), the process environment (\<open>os.environ\<close>) and Python's \<open>re\<close>
  module where a pattern is built at run time. The registries of context sources and of
  selector operations are tables owned by the runtime, open to \<open>register\<close>.
\<close>

datatype fs_entry = File string | Directory

type_synonym file_system = "(string \<times> fs_entry) list"

type_synonym context_source = "file_system \<Rightarrow> value \<Rightarrow> dict \<Rightarrow> error + value"

type_synonym selector_operation = "value \<Rightarrow> dict \<Rightarrow> error + value"

record Runtime =
  nodes :: dict
  views :: "value list"
  flows :: "value list"
  signals :: dict
  environ :: "(string \<times> string) list"
  files :: file_system
  sources :: "(string \<times> context_source) list"
  operations :: "(string \<times> selector_operation) list"
  join_search :: "string \<Rightarrow> string \<Rightarrow> error + (string \<times> string) option"

text \<open>
  \<open>ExecutionContext.get_signal\<close>: the signal map first, then the environment variable
  \<open>CHORD_\<close> followed by the upper-cased name, else \<open>None\<close>.
\<close>

definition get_signal :: "Runtime \<Rightarrow> string \<Rightarrow> value" where
  "get_signal rt name =
     (case map_of (signals rt) name of
        Some v \<Rightarrow> v
      | None \<Rightarrow>
          (case map_of (environ rt) (''CHORD_'' @ upper name) of
             Some s \<Rightarrow> VStr s
           | None \<Rightarrow> VNull))"

text \<open>
  \<open>FileContextSource.fetch(uri, **kwargs)\<close>. The path is looked up as it is written;
  \<open>Path\<close> normalisation is left to the file table.
\<close>

definition FileContextSource_fetch :: context_source where
  "FileContextSource_fetch fs uri kwargs =
     (case uri of
        VStr u \<Rightarrow>
          (let path = (if startswith u ''fs://'' then drop 5 u else u) in
           case map_of fs path of
             None \<Rightarrow> Inl (Error FileNotFoundError (''File not found: '' @ path))
           | Some Directory \<Rightarrow>
               Inl (Error IsADirectoryError (''[Errno 21] Is a directory: '' @ repr_str path))
           | Some (File text) \<Rightarrow> Inr (VStr text))
      | _ \<Rightarrow> Inl (no_attribute uri ''startswith''))"

text \<open>
  The call \<open>source.fetch(uri, **node['properties'])\<close> of a method declared
  \<open>fetch(self, uri, **kwargs)\<close>: a keyword named like a parameter that the call has
  already bound by position is a \<open>TypeError\<close>, raised before the body runs.
\<close>

definition call_fetch :: "context_source \<Rightarrow> file_system \<Rightarrow> value \<Rightarrow> dict \<Rightarrow> error + value" where
  "call_fetch source fs uri kwargs =
     (if has_key kwargs ''self''
        then Inl (Error TypeError (''fetch() got multiple values for argument '' @ repr_str ''self''))
      else if has_key kwargs ''uri''
        then Inl (Error TypeError (''fetch() got multiple values for argument '' @ repr_str ''uri''))
      else source fs uri kwargs)"

text \<open>
  \<open>ContextManager.fetch_context\<close>, on the cache it owns: the result and the cache after
  the call. A key of \<open>self.sources\<close> must be hashable.
\<close>

definition hashable :: "value \<Rightarrow> bool" where
  "hashable v = (case v of VList xs \<Rightarrow> False | VDict d \<Rightarrow> False | _ \<Rightarrow> True)"

definition unhashable :: "value \<Rightarrow> error" where
  "unhashable v = Error TypeError (''unhashable type: '' @ repr_str (type_name v))"

definition fetch_context :: "Runtime \<Rightarrow> dict \<Rightarrow> value \<Rightarrow> (error + value) \<times> dict" where
  "fetch_context rt cache node =
     (case subscript node ''properties'' of
        Inl e \<Rightarrow> (Inl e, cache)
      | Inr props \<Rightarrow>
          (case py_get props ''type'' (VStr ''file'') of
             Inl e \<Rightarrow> (Inl e, cache)
           | Inr ctx_type \<Rightarrow>
               (case py_get props ''uri'' (VStr []) of
                  Inl e \<Rightarrow> (Inl e, cache)
                | Inr uri \<Rightarrow>
                    (let cache_key = py_str ctx_type @ '':'' @ py_str uri in
                     case map_of cache cache_key of
                       Some data \<Rightarrow> (Inr data, cache)
                     | None \<Rightarrow>
                         if \<not> hashable ctx_type then (Inl (unhashable ctx_type), cache)
                         else
                           (case (case ctx_type of VStr t \<Rightarrow> map_of (sources rt) t | _ \<Rightarrow> None) of
                              Some source \<Rightarrow>
                                (case call_fetch source (files rt) uri
                                        (case props of VDict d \<Rightarrow> d | _ \<Rightarrow> []) of
                                   Inl e \<Rightarrow> (Inl e, cache)
                                 | Inr data \<Rightarrow> (Inr data, AList.update cache_key data cache))
                            | None \<Rightarrow>
                                (Inl (Error ValueError (''Unknown context type: '' @ py_str ctx_type)),
                                 cache))))))"

text \<open>
  \<open>Runtime.execute_selector\<close>. The root of a reference is \<open>from_ref[1:].split('.')[0]\<close>.
\<close>

definition reference_root :: "string \<Rightarrow> string" where
  "reference_root ref = hd (split_char (CHR ''.'') (drop 1 ref))"

definition execute_selector :: "Runtime \<Rightarrow> dict \<Rightarrow> value \<Rightarrow> (error + value) \<times> dict" where
  "execute_selector rt cache selector =
     (case py_get selector ''from'' (VStr []) of
        Inl e \<Rightarrow> (Inl e, cache)
      | Inr from_ref \<Rightarrow>
          (case py_get selector ''op'' (VStr ''extract'') of
             Inl e \<Rightarrow> (Inl e, cache)
           | Inr op \<Rightarrow>
               (let source_data =
                      (case from_ref of
                         VStr r \<Rightarrow>
                           if startswith r ''@'' then
                             (case map_of (nodes rt) (reference_root r) of
                                Some node \<Rightarrow>
                                  (case subscript node ''type'' of
                                     Inl e \<Rightarrow> (Inl e, cache)
                                   | Inr t \<Rightarrow>
                                       if t = VStr ''ctx'' then fetch_context rt cache node
                                       else (py_get node ''properties'' (VDict []), cache))
                              | None \<Rightarrow> (Inl (Error ValueError (''Unknown node: '' @ r)), cache))
                           else (Inr from_ref, cache)
                       | _ \<Rightarrow> (Inl (no_attribute from_ref ''startswith''), cache))
                in case source_data of
                     (Inl e, cache') \<Rightarrow> (Inl e, cache')
                   | (Inr data, cache') \<Rightarrow>
                       if \<not> hashable op then (Inl (unhashable op), cache')
                       else
                         (case (case op of VStr name \<Rightarrow> map_of (operations rt) name | _ \<Rightarrow> None) of
                            Some operation \<Rightarrow>
                              (operation data (case selector of VDict d \<Rightarrow> d | _ \<Rightarrow> []), cache')
                          | None \<Rightarrow> (Inr data, cache')))))"

text \<open>
  \<open>Runtime.resolve_selectors\<close>. The result key is computed before the \<open>try\<close>; inside
  it, every exception of \<open>execute_selector\<close> becomes the string \<open>[Error: ...]\<close> under
  that key: all the exception classes above derive from \<open>Exception\<close>, which the \<open>except\<close>
  clause catches.
\<close>

definition selector_key :: "value \<Rightarrow> error + string" where
  "selector_key selector =
     (case py_get selector ''from'' (VStr []) of
        Inl e \<Rightarrow> Inl e
      | Inr from_ref \<Rightarrow>
          (case from_ref of
             VStr r \<Rightarrow> Inr (if startswith r ''@'' then reference_root r else ''data'')
           | _ \<Rightarrow> Inl (no_attribute from_ref ''startswith'')))"

definition error_marker :: "error \<Rightarrow> value" where
  "error_marker e = VStr (''[Error: '' @ exc_text e @ '']'')"

fun resolve_selectors_loop ::
  "Runtime \<Rightarrow> value list \<Rightarrow> dict \<Rightarrow> dict \<Rightarrow> (error + dict) \<times> dict" where
  "resolve_selectors_loop rt [] resolved cache = (Inr resolved, cache)"
| "resolve_selectors_loop rt (selector # rest) resolved cache =
     (case selector_key selector of
        Inl e \<Rightarrow> (Inl e, cache)
      | Inr key \<Rightarrow>
          (case execute_selector rt cache selector of
             (Inr result, cache') \<Rightarrow>
               resolve_selectors_loop rt rest (AList.update key result resolved) cache'
           | (Inl e, cache') \<Rightarrow>
               resolve_selectors_loop rt rest (AList.update key (error_marker e) resolved) cache'))"

definition resolve_selectors :: "Runtime \<Rightarrow> dict \<Rightarrow> value \<Rightarrow> (error + dict) \<times> dict" where
  "resolve_selectors rt cache selectors =
     (case py_iter selectors of
        Inl e \<Rightarrow> (Inl e, cache)
      | Inr sels \<Rightarrow> resolve_selectors_loop rt sels [] cache)"

text \<open>
  \<open>re.finditer(r'{{signal\.(\w+)}}', text)\<close>: the names of the matches, from the left
  and without overlap. The class \<open>\w\<close> has no brace, so a match at a position is the
  longest run of word characters after \<open>{{signal.\<close>, when it is not empty and \<open>}}\<close>
  follows it.
\<close>

function signal_matches :: "string \<Rightarrow> string list" where
  "signal_matches s =
     (if s = [] then []
      else if startswith s ''{{signal.''
              \<and> takeWhile is_word_char (drop 9 s) \<noteq> []
              \<and> startswith (dropWhile is_word_char (drop 9 s)) ''}}''
        then takeWhile is_word_char (drop 9 s)
               # signal_matches (drop 2 (dropWhile is_word_char (drop 9 s)))
      else signal_matches (tl s))"
  by pat_completeness auto
termination
proof (relation "measure length")
  show "wf (measure length)" by simp
next
  fix s :: string
  assume "s \<noteq> []"
  moreover have "length (dropWhile is_word_char (drop 9 s)) \<le> length s - 9"
    using length_dropWhile_le [of is_word_char "drop 9 s"] by simp
  ultimately show "(drop 2 (dropWhile is_word_char (drop 9 s)), s) \<in> measure length"
    by (cases s) auto
next
  fix s :: string
  assume "s \<noteq> []"
  then show "(tl s, s) \<in> measure length" by (cases s) auto
qed

text \<open>
  The pattern of the \<open>join\<close> filter is built from the variable's name, which is not
  escaped. For a name with no character that is special in a pattern, \<open>re.search\<close> finds
  the leftmost \<open>{{name | join('sep')}}\<close> with the shortest non-empty \<open>sep\<close> free of
  newlines: \<open>join_search_literal\<close> returns the matched text and \<open>sep\<close>.
\<close>

fun shortest_sep :: "string \<Rightarrow> string \<Rightarrow> string option" where
  "shortest_sep acc [] = None"
| "shortest_sep acc (c # cs) =
     (if c = LF then None
      else if startswith cs [CHR 0x27, CHR '')'', CHR ''}'', CHR ''}''] then Some (acc @ [c])
      else shortest_sep (acc @ [c]) cs)"

fun join_search_from :: "string \<Rightarrow> string \<Rightarrow> (string \<times> string) option" where
  "join_search_from prefix [] = None"
| "join_search_from prefix (c # cs) =
     (if startswith (c # cs) prefix then
        (case shortest_sep [] (drop (length prefix) (c # cs)) of
           Some sep \<Rightarrow> Some (prefix @ sep @ [CHR 0x27, CHR '')'', CHR ''}'', CHR ''}''], sep)
         | None \<Rightarrow> join_search_from prefix cs)
      else join_search_from prefix cs)"

definition join_search_literal :: "string \<Rightarrow> string \<Rightarrow> error + (string \<times> string) option" where
  "join_search_literal key text =
     Inr (join_search_from (''{{'' @ key @ '' | join('' @ [CHR 0x27]) text)"

text \<open>
  \<open>PromptRenderer.render_template\<close>. The bullet of \<open>bulletize\<close> is U+2022, three bytes
  in UTF-8.
\<close>

definition bullet :: string where
  "bullet = [CHR 0xE2, CHR 0x80, CHR 0xA2]"

definition render_variable :: "Runtime \<Rightarrow> string \<Rightarrow> value \<Rightarrow> string \<Rightarrow> error + string" where
  "render_variable rt key v result =
     (let placeholder = ''{{'' @ key @ ''}}'' in
      if str_contains result placeholder then
        (case v of
           VList items \<Rightarrow>
             if str_contains result ''| bulletize'' then
               Inr (py_replace result (''{{'' @ key @ '' | bulletize}}'')
                      (join [LF] (map (\<lambda>item. bullet @ '' '' @ py_str item) items)))
             else if str_contains result ''| join'' then
               (case join_search rt key result of
                  Inl e \<Rightarrow> Inl e
                | Inr None \<Rightarrow> Inr result
                | Inr (Some (matched, sep)) \<Rightarrow>
                    Inr (py_replace result matched (join sep (map py_str items))))
             else Inr (py_replace result placeholder (py_str v))
         | _ \<Rightarrow> Inr (py_replace result placeholder (py_str v)))
      else Inr result)"

fun render_variables :: "Runtime \<Rightarrow> dict \<Rightarrow> string \<Rightarrow> error + string" where
  "render_variables rt [] result = Inr result"
| "render_variables rt ((key, v) # rest) result =
     (case render_variable rt key v result of
        Inl e \<Rightarrow> Inl e
      | Inr result' \<Rightarrow> render_variables rt rest result')"

fun render_signals :: "Runtime \<Rightarrow> string list \<Rightarrow> string \<Rightarrow> string" where
  "render_signals rt [] result = result"
| "render_signals rt (signal_name # rest) result =
     (let signal_value = get_signal rt signal_name in
      render_signals rt rest
        (if truthy signal_value
         then py_replace result (''{{signal.'' @ signal_name @ ''}}'') (py_str signal_value)
         else result))"

definition render_template :: "Runtime \<Rightarrow> string \<Rightarrow> dict \<Rightarrow> error + string" where
  "render_template rt template variables =
     (case render_variables rt variables template of
        Inl e \<Rightarrow> Inl e
      | Inr result \<Rightarrow> Inr (render_signals rt (signal_matches result) result))"

text \<open>
  \<open>PromptRenderer.render_prompt\<close>: the variables are \<open>resolved_context\<close> and then the
  signals, a signal of that name replacing the first entry.
\<close>

fun render_sections :: "Runtime \<Rightarrow> dict \<Rightarrow> dict \<Rightarrow> error + dict" where
  "render_sections rt variables [] = Inr []"
| "render_sections rt variables ((section_name, template) # rest) =
     (case (case template of
              VStr t \<Rightarrow> render_template rt t variables
            | _ \<Rightarrow> Inr (py_str template)) of
        Inl e \<Rightarrow> Inl e
      | Inr text \<Rightarrow>
          (case render_sections rt variables rest of
             Inl e \<Rightarrow> Inl e
           | Inr rendered \<Rightarrow> Inr ((section_name, VStr text) # rendered)))"

definition render_prompt :: "Runtime \<Rightarrow> value \<Rightarrow> dict \<Rightarrow> error + dict" where
  "render_prompt rt prompt_config resolved_context =
     (let variables =
            foldl (\<lambda>vars kv. AList.update (fst kv) (snd kv) vars)
              [(''resolved_context'', VDict resolved_context)] (signals rt)
      in case prompt_config of
           VDict sections \<Rightarrow> render_sections rt variables sections
         | _ \<Rightarrow> Inl (no_attribute prompt_config ''items''))"

text \<open>
  The lookup loop of \<open>execute_view\<close> and \<open>execute_flow\<close>: the first record whose \<open>id\<close>
  equals the one asked for. Values are compared by structure.
\<close>

fun find_by_id :: "value list \<Rightarrow> value \<Rightarrow> error + value option" where
  "find_by_id [] wanted = Inr None"
| "find_by_id (v # vs) wanted =
     (case subscript v ''id'' of
        Inl e \<Rightarrow> Inl e
      | Inr i \<Rightarrow> if i = wanted then Inr (Some v) else find_by_id vs wanted)"

text \<open>
  The \<open>role\<close> and \<open>model\<close> of a view: the properties of the node the reference names, or
  \<open>None\<close>.
\<close>

definition referenced_properties :: "Runtime \<Rightarrow> value \<Rightarrow> error + value" where
  "referenced_properties rt ref =
     (if truthy ref then
        (case ref of
           VStr r \<Rightarrow>
             if startswith r ''@'' then
               (case map_of (nodes rt) (drop 1 r) of
                  Some node \<Rightarrow> subscript node ''properties''
                | None \<Rightarrow> Inr VNull)
             else Inr VNull
         | _ \<Rightarrow> Inl (no_attribute ref ''startswith''))
      else Inr VNull)"

definition execute_view :: "Runtime \<Rightarrow> dict \<Rightarrow> value \<Rightarrow> (error + value) \<times> dict" where
  "execute_view rt cache view_id =
     (case find_by_id (views rt) view_id of
        Inl e \<Rightarrow> (Inl e, cache)
      | Inr None \<Rightarrow> (Inl (Error ValueError (''View not found: '' @ py_str view_id)), cache)
      | Inr (Some view) \<Rightarrow>
          (case resolve_selectors rt cache (dict_get (case view of VDict d \<Rightarrow> d | _ \<Rightarrow> []) ''selectors'' (VList [])) of
             (Inl e, cache') \<Rightarrow> (Inl e, cache')
           | (Inr resolved_context, cache') \<Rightarrow>
               (let d = (case view of VDict d \<Rightarrow> d | _ \<Rightarrow> []) in
                case referenced_properties rt (dict_get d ''role'' (VStr [])) of
                  Inl e \<Rightarrow> (Inl e, cache')
                | Inr role \<Rightarrow>
                    (case referenced_properties rt (dict_get d ''model'' (VStr [])) of
                       Inl e \<Rightarrow> (Inl e, cache')
                     | Inr model \<Rightarrow>
                         (case render_prompt rt (dict_get d ''prompt'' (VDict [])) resolved_context of
                            Inl e \<Rightarrow> (Inl e, cache')
                          | Inr rendered_prompt \<Rightarrow>
                              (Inr (VDict
                                 [(''view_id'', view_id),
                                  (''task'', dict_get d ''task'' VNull),
                                  (''role'', role),
                                  (''model'', model),
                                  (''resolved_context'', VDict resolved_context),
                                  (''prompt'', VDict rendered_prompt),
                                  (''response_format'', dict_get d ''response_format'' VNull),
                                  (''asserts'', dict_get d ''asserts'' (VList []))]),
                               cache'))))))"

text \<open>\<open>Runtime.execute_task\<close>: only the first view of the task is executed.\<close>

fun views_of_task :: "value list \<Rightarrow> string \<Rightarrow> error + value list" where
  "views_of_task [] task_id = Inr []"
| "views_of_task (view # rest) task_id =
     (case py_get view ''task'' VNull of
        Inl e \<Rightarrow> Inl e
      | Inr t \<Rightarrow>
          if t = VStr (''@'' @ task_id) then
            (case subscript view ''id'' of
               Inl e \<Rightarrow> Inl e
             | Inr i \<Rightarrow> (case views_of_task rest task_id of Inl e \<Rightarrow> Inl e | Inr ids \<Rightarrow> Inr (i # ids)))
          else views_of_task rest task_id)"

definition execute_task :: "Runtime \<Rightarrow> dict \<Rightarrow> string \<Rightarrow> (error + value) \<times> dict" where
  "execute_task rt cache task_id =
     (case map_of (nodes rt) task_id of
        None \<Rightarrow> (Inl (Error ValueError (''Task not found: '' @ task_id)), cache)
      | Some task \<Rightarrow>
          (case subscript task ''type'' of
             Inl e \<Rightarrow> (Inl e, cache)
           | Inr t \<Rightarrow>
               if t \<noteq> VStr ''task''
                 then (Inl (Error ValueError (''Node '' @ task_id @ '' is not a task'')), cache)
               else
                 (case views_of_task (views rt) task_id of
                    Inl e \<Rightarrow> (Inl e, cache)
                  | Inr [] \<Rightarrow>
                      (Inr (VDict [(''task_id'', VStr task_id), (''status'', VStr ''no_views'')]), cache)
                  | Inr (first_view # others) \<Rightarrow>
                      (case execute_view rt cache first_view of
                         (Inl e, cache') \<Rightarrow> (Inl e, cache')
                       | (Inr view_result, cache') \<Rightarrow>
                           (case subscript task ''properties'' of
                              Inl e \<Rightarrow> (Inl e, cache')
                            | Inr props \<Rightarrow>
                                (Inr (VDict [(''task_id'', VStr task_id),
                                             (''task'', props),
                                             (''view_result'', view_result)]),
                                 cache'))))))"

text \<open>
  \<open>Runtime.execute_flow\<close>: the entry task when the flow has an \<open>entry\<close> that is a
  reference, then the \<open>to\<close> task of every edge whose \<open>to\<close> is a reference. The first
  exception ends the flow.
\<close>

fun execute_edges ::
  "Runtime \<Rightarrow> dict \<Rightarrow> value list \<Rightarrow> value list \<Rightarrow> (error + value list) \<times> dict" where
  "execute_edges rt cache [] results = (Inr results, cache)"
| "execute_edges rt cache (edge # rest) results =
     (case py_get edge ''from'' (VStr []) of
        Inl e \<Rightarrow> (Inl e, cache)
      | Inr from_task \<Rightarrow>
          (case py_get edge ''to'' (VStr []) of
             Inl e \<Rightarrow> (Inl e, cache)
           | Inr to_task \<Rightarrow>
               if truthy to_task then
                 (case to_task of
                    VStr r \<Rightarrow>
                      if startswith r ''@'' then
                        (case execute_task rt cache (reference_root r) of
                           (Inl e, cache') \<Rightarrow> (Inl e, cache')
                         | (Inr result, cache') \<Rightarrow> execute_edges rt cache' rest (results @ [result]))
                      else execute_edges rt cache rest results
                  | _ \<Rightarrow> (Inl (no_attribute to_task ''startswith''), cache))
               else execute_edges rt cache rest results))"

definition execute_entry :: "Runtime \<Rightarrow> dict \<Rightarrow> dict \<Rightarrow> (error + value list) \<times> dict" where
  "execute_entry rt cache flow =
     (case map_of flow ''entry'' of
        None \<Rightarrow> (Inr [], cache)
      | Some entry_task \<Rightarrow>
          (case entry_task of
             VStr r \<Rightarrow>
               if startswith r ''@'' then
                 (case execute_task rt cache (reference_root r) of
                    (Inl e, cache') \<Rightarrow> (Inl e, cache')
                  | (Inr result, cache') \<Rightarrow> (Inr [result], cache'))
               else (Inr [], cache)
           | _ \<Rightarrow> (Inl (no_attribute entry_task ''startswith''), cache)))"

definition execute_flow :: "Runtime \<Rightarrow> dict \<Rightarrow> value \<Rightarrow> (error + value) \<times> dict" where
  "execute_flow rt cache flow_id =
     (case find_by_id (flows rt) flow_id of
        Inl e \<Rightarrow> (Inl e, cache)
      | Inr None \<Rightarrow> (Inl (Error ValueError (''Flow not found: '' @ py_str flow_id)), cache)
      | Inr (Some flow) \<Rightarrow>
          (let d = (case flow of VDict d \<Rightarrow> d | _ \<Rightarrow> []) in
           case execute_entry rt cache d of
             (Inl e, cache') \<Rightarrow> (Inl e, cache')
           | (Inr results, cache') \<Rightarrow>
               (case py_iter (dict_get d ''edges'' (VList [])) of
                  Inl e \<Rightarrow> (Inl e, cache')
                | Inr edges \<Rightarrow>
                    (case execute_edges rt cache' edges results of
                       (Inl e, cache'') \<Rightarrow> (Inl e, cache'')
                     | (Inr results', cache'') \<Rightarrow>
                         (Inr (VDict [(''flow_id'', flow_id), (''results'', VList results')]),
                          cache'')))))"

text \<open>
  The claims about a batch of selectors and about a flow speak of what each selector or
  task does by itself. The two functions below say that in the claims' words, to be
  compared with \<open>resolve_selectors\<close> and \<open>execute_flow\<close>: the value each selector
  leaves under its key, in the cache left by the selectors before it, and the tasks of
  a list run one after the other until one raises.
\<close>

definition spec_selector_outcome :: "error + value \<Rightarrow> value" where
  "spec_selector_outcome r = (case r of Inr v \<Rightarrow> v | Inl e \<Rightarrow> error_marker e)"

fun spec_selector_outcomes :: "Runtime \<Rightarrow> dict \<Rightarrow> value list \<Rightarrow> value list" where
  "spec_selector_outcomes rt cache [] = []"
| "spec_selector_outcomes rt cache (selector # rest) =
     spec_selector_outcome (fst (execute_selector rt cache selector))
       # spec_selector_outcomes rt (snd (execute_selector rt cache selector)) rest"

fun spec_cache_after_selectors :: "Runtime \<Rightarrow> dict \<Rightarrow> value list \<Rightarrow> dict" where
  "spec_cache_after_selectors rt cache [] = cache"
| "spec_cache_after_selectors rt cache (selector # rest) =
     spec_cache_after_selectors rt (snd (execute_selector rt cache selector)) rest"

fun spec_run_tasks_in_order :: "Runtime \<Rightarrow> dict \<Rightarrow> string list \<Rightarrow> (error + value list) \<times> dict" where
  "spec_run_tasks_in_order rt cache [] = (Inr [], cache)"
| "spec_run_tasks_in_order rt cache (task_id # rest) =
     (case execute_task rt cache task_id of
        (Inl e, cache') \<Rightarrow> (Inl e, cache')
      | (Inr result, cache') \<Rightarrow>
          (case spec_run_tasks_in_order rt cache' rest of
             (Inl e, cache'') \<Rightarrow> (Inl e, cache'')
           | (Inr results, cache'') \<Rightarrow> (Inr (result # results), cache'')))"

text \<open>
  A runtime to run the engine on concrete input: a role, two tasks and a file context,
  one view for the first task, one flow, and the selector operations modelled above.
\<close>

definition example_runtime :: Runtime where
  "example_runtime =
     \<lparr>nodes =
        [(''r'', VDict [(''type'', VStr ''role''), (''id'', VStr ''r''),
                       (''properties'', VDict [(''name'', VStr ''Reviewer'')])]),
         (''taskA'', VDict [(''type'', VStr ''task''), (''id'', VStr ''taskA''),
                           (''properties'', VDict [(''goal'', VStr ''first'')])]),
         (''taskB'', VDict [(''type'', VStr ''task''), (''id'', VStr ''taskB''),
                           (''properties'', VDict [(''goal'', VStr ''second'')])]),
         (''doc'', VDict [(''type'', VStr ''ctx''), (''id'', VStr ''doc''),
                         (''properties'', VDict [(''type'', VStr ''file''),
                                                 (''uri'', VStr ''fs://x.txt'')])])],
      views =
        [VDict [(''id'', VStr ''vA''), (''type'', VStr ''view''),
                (''task'', VStr ''@taskA''), (''role'', VStr ''@r''),
                (''model'', VNull), (''policy'', VNull),
                (''selectors'', VList [VDict [(''from'', VStr ''@r''), (''op'', VStr ''head'')]]),
                (''prompt'', VDict [(''user'', VStr ''Hi {{name}}'')]),
                (''response_format'', VNull), (''post_process'', VList []),
                (''asserts'', VList [])]],
      flows =
        [VDict [(''id'', VStr ''f''), (''type'', VStr ''flow''),
                (''entry'', VStr ''@taskA''),
                (''edges'', VList [VDict [(''from'', VStr ''@taskA''), (''to'', VStr ''@taskB'')]]),
                (''conditional'', VDict [(''when'', VStr ''never'')])]],
      signals = [(''name'', VStr ''Bob''), (''count'', VInt 0)],
      environ = [],
      files = [(''x.txt'', File ''hello'')],
      sources = [(''file'', FileContextSource_fetch)],
      operations =
        [(''head'', HeadSelector_execute), (''tail'', TailSelector_execute),
         (''semantic_search'', SemanticSearchSelector_execute),
         (''search'', SemanticSearchSelector_execute)],
      join_search = join_search_literal\<rparr>"

definition example_batch :: "value list" where
  "example_batch =
     [VDict [(''from'', VStr ''@missing''), (''op'', VStr ''head'')],
      VDict [(''from'', VStr ''@r''), (''op'', VStr ''head'')],
      VDict [(''from'', VStr (''one'' @ [LF] @ ''two'')), (''op'', VStr ''tail''),
             (''lines'', VInt 1)]]"

text \<open>
  A batch whose second selector has a number as \<open>from\<close>; the language accepts
  \<open>{from: 5, op: "head"}\<close> and \<open>compile_view\<close> copies it.
\<close>

definition unkeyed_batch :: "value list" where
  "unkeyed_batch =
     [VDict [(''from'', VStr ''@r''), (''op'', VStr ''head'')],
      VDict [(''from'', VInt 5), (''op'', VStr ''head'')],
      VDict [(''from'', VStr (''one'' @ [LF] @ ''two'')), (''op'', VStr ''tail''),
             (''lines'', VInt 1)]]"


section \<open>The lexer (chord_compiler)\<close>

text \<open>
  The state of the \<open>Lexer\<close>: the source text, the position in it, and the line and
  column counters. \<open>current_char\<close> is \<open>None\<close> at the end of the source.
\<close>

record Lexer =
  lx_source :: string
  lx_pos :: nat
  lx_line :: nat
  lx_column :: nat

definition current_char :: "Lexer \<Rightarrow> char option" where
  "current_char lx =
     (if lx_pos lx \<ge> length (lx_source lx) then None else Some (lx_source lx ! lx_pos lx))"

text \<open>\<open>advance\<close> returns the current character and moves on; the state after it:\<close>

definition advance :: "Lexer \<Rightarrow> Lexer" where
  "advance lx =
     (if current_char lx = Some LF
      then lx\<lparr>lx_pos := lx_pos lx + 1, lx_line := lx_line lx + 1, lx_column := 1\<rparr>
      else lx\<lparr>lx_pos := lx_pos lx + 1, lx_column := lx_column lx + 1\<rparr>)"

definition is_indent :: "char \<Rightarrow> bool" where
  "is_indent c = (c = CHR '' '' \<or> c = TAB)"

text \<open>The loop \<open>while self.current_char() and self.current_char() != '\n': self.advance()\<close>.\<close>

function skip_to_newline :: "Lexer \<Rightarrow> Lexer" where
  "skip_to_newline lx =
     (case current_char lx of
        None \<Rightarrow> lx
      | Some c \<Rightarrow> if c \<noteq> LF then skip_to_newline (advance lx) else lx)"
  by pat_completeness auto
termination
  by (relation "measure (\<lambda>lx. length (lx_source lx) - lx_pos lx)")
     (auto simp add: current_char_def advance_def split: if_splits)

text \<open>
  The loop that counts indentation: one more for every space or tab, each of them
  consumed.
\<close>

function count_indent :: "Lexer \<Rightarrow> nat \<Rightarrow> nat \<times> Lexer" where
  "count_indent lx n =
     (case current_char lx of
        None \<Rightarrow> (n, lx)
      | Some c \<Rightarrow> if is_indent c then count_indent (advance lx) (n + 1) else (n, lx))"
  by pat_completeness auto
termination
  by (relation "measure (\<lambda>(lx, n). length (lx_source lx) - lx_pos lx)")
     (auto simp add: current_char_def advance_def split: if_splits)

lemma count_indent_moves_forward:
  "lx_source (snd (count_indent lx n)) = lx_source lx \<and> lx_pos lx \<le> lx_pos (snd (count_indent lx n))"
proof (induction lx n rule: count_indent.induct)
  case (1 lx n)
  show ?case
  proof (cases "current_char lx")
    case None
    then show ?thesis by (simp add: count_indent.simps [of lx n])
  next
    case (Some c)
    show ?thesis
    proof (cases "is_indent c")
      case True
      have "lx_source (advance lx) = lx_source lx" and "lx_pos lx \<le> lx_pos (advance lx)"
        by (simp_all add: advance_def)
      then show ?thesis
        using "1.IH" [OF Some True] Some True by (simp add: count_indent.simps [of lx n])
    next
      case False
      then show ?thesis using Some by (simp add: count_indent.simps [of lx n])
    qed
  qed
qed

text \<open>
  The main loop of \<open>read_multiline_string\<close>, on \<open>lines\<close> and \<open>current_line\<close>. At a
  newline the line is closed and the indentation of the next line counted, all of it
  consumed; a next line that is indented less than \<open>base_indent\<close> and is neither empty
  nor the end of the source ends the loop, with the position set back to its start.
\<close>

function multiline_body ::
  "nat \<Rightarrow> Lexer \<Rightarrow> string list \<Rightarrow> string \<Rightarrow> string list \<times> string \<times> Lexer" where
  "multiline_body base_indent lx lines current_line =
     (case current_char lx of
        None \<Rightarrow> (lines, current_line, lx)
      | Some c \<Rightarrow>
          if c = LF then
            (let lx1 = advance lx;
                 start_pos = lx_pos lx1;
                 counted = count_indent lx1 0;
                 indent = fst counted;
                 lx2 = snd counted
             in if indent < base_indent \<and> current_char lx2 \<noteq> None \<and> current_char lx2 \<noteq> Some LF
                then (lines @ [current_line], [], lx2\<lparr>lx_pos := start_pos\<rparr>)
                else multiline_body base_indent lx2 (lines @ [current_line]) [])
          else multiline_body base_indent (advance lx) lines (current_line @ [c]))"
  by pat_completeness auto
termination
proof (relation "measure (\<lambda>(b, lx, ls, cur). length (lx_source lx) - lx_pos lx)")
  show "wf (measure (\<lambda>(b, lx, ls, cur). length (lx_source lx) - lx_pos lx))"
    by simp
next
  fix base_indent :: nat and lx :: Lexer and lines :: "string list" and current_line :: string
    and c :: char and lx1 start_pos counted indent lx2
  assume cc: "current_char lx = Some c" and "c = LF"
    and defs: "lx1 = advance lx" "counted = count_indent lx1 0" "lx2 = snd counted"
  have "lx_pos lx < length (lx_source lx)"
    using cc by (simp add: current_char_def split: if_splits)
  moreover have "lx_source lx1 = lx_source lx" and "lx_pos lx1 = lx_pos lx + 1"
    using defs(1) by (simp_all add: advance_def)
  moreover have "lx_source lx2 = lx_source lx1" and "lx_pos lx1 \<le> lx_pos lx2"
    using count_indent_moves_forward [of lx1 0] defs(2,3) by simp_all
  ultimately show "((base_indent, lx2, lines @ [current_line], []), base_indent, lx, lines, current_line)
      \<in> measure (\<lambda>(b, lx, ls, cur). length (lx_source lx) - lx_pos lx)"
    by simp
next
  fix base_indent :: nat and lx :: Lexer and lines :: "string list" and current_line :: string
    and c :: char
  assume "current_char lx = Some c"
  then show "((base_indent, advance lx, lines, current_line @ [c]), base_indent, lx, lines, current_line)
      \<in> measure (\<lambda>(b, lx, ls, cur). length (lx_source lx) - lx_pos lx)"
    by (auto simp add: current_char_def advance_def split: if_splits)
qed

declare skip_to_newline.simps [simp del] count_indent.simps [simp del]
  multiline_body.simps [simp del]

text \<open>
  \<open>read_multiline_string\<close>: the value of the string token and the state after it. The
  rest of the line of the \<open>|\<close> is skipped; the indentation of the first body line is
  \<open>base_indent\<close>.
\<close>

definition read_multiline_string :: "Lexer \<Rightarrow> string \<times> Lexer" where
  "read_multiline_string lx =
     (let lx1 = skip_to_newline (advance lx);
          lx2 = (if current_char lx1 = Some LF then advance lx1 else lx1);
          counted = count_indent lx2 0;
          base_indent = fst counted;
          body = multiline_body base_indent (snd counted) [] [];
          lines = fst body;
          current_line = fst (snd body);
          lx3 = snd (snd body)
      in (join [LF] (if current_line \<noteq> [] then lines @ [current_line] else lines), lx3))"

text \<open>
  What the claim about multi-line strings says the value is, in its words: every body
  line without the indentation of the first body line, a deeper line keeping the rest
  of its own.
\<close>

definition indentation :: "string \<Rightarrow> nat" where
  "indentation s = length (takeWhile is_indent s)"

definition spec_strip_common_indentation :: "string list \<Rightarrow> string" where
  "spec_strip_common_indentation body_lines =
     join [LF] (map (drop (indentation (hd body_lines))) body_lines)"

definition lexer_on :: "string \<Rightarrow> Lexer" where
  "lexer_on s = \<lparr>lx_source = s, lx_pos = 0, lx_line = 1, lx_column = 1\<rparr>"

text \<open>
  The shape of a body line after the first, as indentation and text: the text has no
  newline, and a line that is not blank starts with a character that is no indentation
  and is indented at least as deep as the first body line.
\<close>

definition body_line_ok :: "nat \<Rightarrow> string \<times> string \<Rightarrow> bool" where
  "body_line_ok base_indent l =
     (list_all is_indent (fst l) \<and> LF \<notin> set (snd l)
      \<and> (snd l = [] \<or> (\<not> is_indent (hd (snd l)) \<and> base_indent \<le> length (fst l))))"

definition body_text :: "(string \<times> string) list \<Rightarrow> string" where
  "body_text body = concat (map (\<lambda>l. LF # fst l @ snd l) body)"

definition lexer_at :: "Lexer \<Rightarrow> string \<Rightarrow> string \<Rightarrow> bool" where
  "lexer_at lx before after = (lx_source lx = before @ after \<and> lx_pos lx = length before)"


section \<open>The tail selector\<close>

text \<open>
  C10. For every string input, \<open>tail\<close> with \<open>lines = 0\<close> returns all lines of the input,
  newline-joined, and not the empty selection: the slice \<open>[-0:]\<close> is the whole line list.
  With \<open>lines = n\<close> and \<open>n \<ge> 1\<close> the result is the last \<open>n\<close> lines (all of them when the
  input has fewer).
\<close>

theorem tail_zero_lines_returns_all:
  assumes "map_of params ''lines'' = Some (VInt n)" and "0 \<le> n"
  shows "TailSelector_execute (VStr s) params =
           Inr (VStr (join [LF]
             (if n = 0 then splitlines s
              else drop (length (splitlines s) - nat n) (splitlines s))))"
proof -
  have lines: "dict_get params ''lines'' (VInt 100) = VInt n"
    using assms(1) by (simp add: dict_get_def)
  have "nat (int (length (splitlines s)) - n) = length (splitlines s) - nat n"
    using assms(2) by linarith
  then show ?thesis
    using assms(2)
    by (simp add: TailSelector_execute_def lines negate_def slice_index_def slice_from_def)
qed

lemma splitlines_abc:
  "splitlines [CHR ''a'', LF, CHR ''b'', LF, CHR ''c''] = [''a'', ''b'', ''c'']"
  by code_simp

theorem tail_zero_lines_returns_all_witness:
  "TailSelector_execute (VStr (''a'' @ [LF] @ ''b'' @ [LF] @ ''c'')) [(''lines'', VInt 0)]
     = Inr (VStr (''a'' @ [LF] @ ''b'' @ [LF] @ ''c''))
   \<and> TailSelector_execute (VStr (''a'' @ [LF] @ ''b'' @ [LF] @ ''c'')) [(''lines'', VInt 2)]
     = Inr (VStr (''b'' @ [LF] @ ''c''))"
  using tail_zero_lines_returns_all [of "[(''lines'', VInt 0)]" 0 "''a'' @ [LF] @ ''b'' @ [LF] @ ''c''"]
    tail_zero_lines_returns_all [of "[(''lines'', VInt 2)]" 2 "''a'' @ [LF] @ ''b'' @ [LF] @ ''c''"]
  by (simp add: splitlines_abc)


section \<open>The semantic\_search selector\<close>

lemma sort_by_score_reverse_descending:
  assumes "i \<le> j" and "j < length xs"
  shows "fst (sort_by_score_reverse xs ! j) \<le> fst (sort_by_score_reverse xs ! i)"
proof -
  let ?ys = "sort_by_score_reverse xs"
  have len: "length ?ys = length xs"
    by (simp add: sort_by_score_reverse_def)
  have "sorted (map (\<lambda>p. - int (fst p)) ?ys)"
    unfolding sort_by_score_reverse_def by (rule sorted_sort_key)
  then have "map (\<lambda>p. - int (fst p)) ?ys ! i \<le> map (\<lambda>p. - int (fst p)) ?ys ! j"
    using assms len by (intro sorted_nth_mono) simp_all
  then show ?thesis
    using assms len by simp
qed

lemma sort_by_score_reverse_stable:
  "filter (\<lambda>p. fst p = n) (sort_by_score_reverse xs) = filter (\<lambda>p. fst p = n) xs"
proof -
  have "filter (\<lambda>p. - int (fst p) = - int n) (sort_key (\<lambda>p. - int (fst p)) xs)
          = filter (\<lambda>p. - int (fst p) = - int n) xs"
    by (rule sort_key_stable)
  then show ?thesis
    by (simp add: sort_by_score_reverse_def)
qed

lemma score_line_code:
  "score_line qs line = length (remdups (filter (\<lambda>w. w \<in> set (split_ws (lower line))) qs))"
proof -
  have "set qs \<inter> set (split_ws (lower line))
          = set (remdups (filter (\<lambda>w. w \<in> set (split_ws (lower line))) qs))"
    by auto
  then show ?thesis
    unfolding score_line_def by (simp only: distinct_card [OF distinct_remdups])
qed

text \<open>
  C9. \<open>semantic_search\<close> scores each line by the size of the intersection of its
  lower-cased word set with the query's, keeps the lines of score above 0, and returns
  the first \<open>top_k\<close> of them (5 when \<open>top_k\<close> is not given) in descending score order,
  lines of equal score in their original order.
\<close>

theorem semantic_search_ranks_by_overlap:
  assumes "map_of params ''query'' = Some (VStr q)"
    and "(map_of params ''top_k'' = None \<and> k = 5) \<or> (map_of params ''top_k'' = Some (VInt k) \<and> 0 \<le> k)"
  shows "\<exists>ranked.
           SemanticSearchSelector_execute (VStr s) params
             = Inr (VStr (join [LF] (map snd (take (nat k) ranked))))
         \<and> mset ranked =
             mset (filter (\<lambda>p. 0 < fst p)
               (map (\<lambda>line. (card (set (split_ws (lower q)) \<inter> set (split_ws (lower line))), line))
                 (splitlines s)))
         \<and> (\<forall>i j. i \<le> j \<and> j < length ranked \<longrightarrow> fst (ranked ! j) \<le> fst (ranked ! i))
         \<and> (\<forall>n. filter (\<lambda>p. fst p = n) ranked =
                  filter (\<lambda>p. fst p = n)
                    (filter (\<lambda>p. 0 < fst p)
                      (map (\<lambda>line. (card (set (split_ws (lower q)) \<inter> set (split_ws (lower line))), line))
                        (splitlines s))))"
proof -
  let ?scored = "scored_lines q (splitlines s)"
  let ?ranked = "sort_by_score_reverse ?scored"
  have scored: "?scored = filter (\<lambda>p. 0 < fst p)
      (map (\<lambda>line. (card (set (split_ws (lower q)) \<inter> set (split_ws (lower line))), line))
        (splitlines s))"
    by (simp add: scored_lines_def score_line_def)
  have query: "dict_get params ''query'' (VStr []) = VStr q"
    using assms(1) by (simp add: dict_get_def)
  have top_k: "dict_get params ''top_k'' (VInt 5) = VInt k" and k: "0 \<le> k"
    using assms(2) by (auto simp add: dict_get_def)
  have run: "SemanticSearchSelector_execute (VStr s) params
      = Inr (VStr (join [LF] (map snd (take (nat k) ?ranked))))"
    using k by (simp add: SemanticSearchSelector_execute_def query top_k slice_index_def slice_to_def)
  have perm: "mset ?ranked = mset ?scored"
    by (simp add: sort_by_score_reverse_def)
  have desc: "\<forall>i j. i \<le> j \<and> j < length ?ranked \<longrightarrow> fst (?ranked ! j) \<le> fst (?ranked ! i)"
    using sort_by_score_reverse_descending [of _ _ ?scored]
    by (simp add: sort_by_score_reverse_def)
  have stable: "\<forall>n. filter (\<lambda>p. fst p = n) ?ranked = filter (\<lambda>p. fst p = n) ?scored"
    by (simp add: sort_by_score_reverse_stable)
  show ?thesis
    using run perm desc stable unfolding scored by blast
qed

lemma semantic_search_example:
  "SemanticSearchSelector_execute
     (VStr [CHR ''a'', CHR '' '', CHR ''c'', LF, CHR ''b'', CHR '' '', CHR ''c'', LF,
            CHR ''a'', CHR '' '', CHR ''b'', CHR '' '', CHR ''c''])
     [(''query'', VStr ''a b'')]
   = Inr (VStr [CHR ''a'', CHR '' '', CHR ''b'', CHR '' '', CHR ''c'', LF,
                CHR ''a'', CHR '' '', CHR ''c'', LF, CHR ''b'', CHR '' '', CHR ''c''])"
  by code_simp

lemma splitlines_example:
  "splitlines [CHR ''a'', CHR '' '', CHR ''c'', LF, CHR ''b'', CHR '' '', CHR ''c'', LF,
               CHR ''a'', CHR '' '', CHR ''b'', CHR '' '', CHR ''c'']
     = [''a c'', ''b c'', ''a b c'']"
  by code_simp

lemma scored_lines_example:
  "scored_lines ''a b'' [''a c'', ''b c'', ''a b c'']
     = [(1, ''a c''), (1, ''b c''), (2, ''a b c'')]"
  by code_simp

theorem semantic_search_ranks_by_overlap_witness:
  "\<exists>ranked :: (nat \<times> string) list.
      SemanticSearchSelector_execute
        (VStr [CHR ''a'', CHR '' '', CHR ''c'', LF, CHR ''b'', CHR '' '', CHR ''c'', LF,
               CHR ''a'', CHR '' '', CHR ''b'', CHR '' '', CHR ''c''])
        [(''query'', VStr ''a b'')]
        = Inr (VStr (join [LF] (map snd (take 5 ranked))))
    \<and> join [LF] (map snd (take 5 ranked))
        = [CHR ''a'', CHR '' '', CHR ''b'', CHR '' '', CHR ''c'', LF,
           CHR ''a'', CHR '' '', CHR ''c'', LF, CHR ''b'', CHR '' '', CHR ''c'']
    \<and> mset ranked = mset [(1, ''a c''), (1, ''b c''), (2, ''a b c'')]
    \<and> filter (\<lambda>p. fst p = 1) ranked = [(1, ''a c''), (1, ''b c'')]"
proof -
  let ?data = "[CHR ''a'', CHR '' '', CHR ''c'', LF, CHR ''b'', CHR '' '', CHR ''c'', LF,
                CHR ''a'', CHR '' '', CHR ''b'', CHR '' '', CHR ''c'']"
  let ?params = "[(''query'', VStr ''a b'')]"
  have scored: "filter (\<lambda>p. 0 < fst p)
      (map (\<lambda>line. (card (set (split_ws (lower ''a b'')) \<inter> set (split_ws (lower line))), line))
        (splitlines ?data)) = [(1, ''a c''), (1, ''b c''), (2, ''a b c'')]"
    using scored_lines_example
    by (simp only: splitlines_example scored_lines_def score_line_def)
  have q: "map_of ?params ''query'' = Some (VStr ''a b'')"
    by simp
  have k: "(map_of ?params ''top_k'' = None \<and> (5::int) = 5)
      \<or> (map_of ?params ''top_k'' = Some (VInt 5) \<and> (0::int) \<le> 5)"
    by simp
  note ranking = semantic_search_ranks_by_overlap [OF q k, of ?data, unfolded scored]
  then obtain ranked :: "(nat \<times> string) list" where
    run: "SemanticSearchSelector_execute (VStr ?data) ?params
            = Inr (VStr (join [LF] (map snd (take (nat 5) ranked))))"
    and perm: "mset ranked = mset [(1, ''a c''), (1, ''b c''), (2, ''a b c'')]"
    and stable: "\<forall>n. filter (\<lambda>p. fst p = n) ranked
            = filter (\<lambda>p. fst p = n) [(1, ''a c''), (1, ''b c''), (2, ''a b c'')]"
    by blast
  have "join [LF] (map snd (take 5 ranked))
        = [CHR ''a'', CHR '' '', CHR ''b'', CHR '' '', CHR ''c'', LF,
           CHR ''a'', CHR '' '', CHR ''c'', LF, CHR ''b'', CHR '' '', CHR ''c'']"
    using run semantic_search_example by simp
  moreover have "filter (\<lambda>p. fst p = 1) ranked = [(1, ''a c''), (1, ''b c'')]"
    using stable by simp
  ultimately show ?thesis
    using run perm by (intro exI [of _ ranked]) simp
qed

section \<open>Reference resolution\<close>

lemma split_char_from_no_sep:
  "sep \<notin> set s \<Longrightarrow> split_char_from sep cur (s @ rest) = split_char_from sep (cur @ s) rest"
  by (induction s arbitrary: cur) auto

lemma split_char_segment:
  "sep \<notin> set s \<Longrightarrow> split_char_from sep cur (s @ sep # rest) = (cur @ s) # split_char_from sep [] rest"
  by (simp add: split_char_from_no_sep)

lemma split_char_last:
  "sep \<notin> set s \<Longrightarrow> split_char_from sep cur s = [cur @ s]"
  using split_char_from_no_sep [of sep s cur "[]"] by simp

lemma split_node_a_segment:
  assumes "CHR ''.'' \<notin> set z"
  shows "split_char (CHR ''.'') (''node.a.'' @ z) = [''node'', ''a'', z]"
proof -
  have "split_char_from (CHR ''.'') [] (''node'' @ CHR ''.'' # (''a'' @ CHR ''.'' # z))
          = ''node'' # split_char_from (CHR ''.'') [] (''a'' @ CHR ''.'' # z)"
    by (subst split_char_segment) simp_all
  also have "split_char_from (CHR ''.'') [] (''a'' @ CHR ''.'' # z)
          = ''a'' # split_char_from (CHR ''.'') [] z"
    by (subst split_char_segment) simp_all
  also have "split_char_from (CHR ''.'') [] z = [z]"
    using assms split_char_last [of "CHR ''.''" z "[]"] by simp
  finally show ?thesis
    by (simp add: split_char_def)
qed

text \<open>
  C1. In every graph that has a node \<open>node\<close> with properties \<open>{a: {b: x}}\<close>, the
  reference \<open>@node.a.b\<close> resolves to \<open>x\<close>, and a reference \<open>@node.a.z\<close> whose last
  segment \<open>z\<close> is not a key of the mapping reached resolves to the reference string
  itself, with no error; a node property with such a value compiles to that result.
\<close>

theorem resolve_reference_soft_fail:
  assumes "map_of (graph_nodes g) ''node'' = Some n"
    and "properties n = [(''a'', VDict [(''b'', VStr x)])]"
    and "z \<noteq> ''b''" and "CHR ''.'' \<notin> set z"
    and "properties m = [(k1, VStr ''@node.a.b''), (k2, VStr (''@node.a.'' @ z))]"
  shows "resolve_reference g ''@node.a.b'' = Inr (VStr x)
       \<and> resolve_reference g (''@node.a.'' @ z) = Inr (VStr (''@node.a.'' @ z))
       \<and> (\<exists>c. compile_node g m = Inr (VDict c)
              \<and> map_of c ''properties''
                  = Some (VDict [(k1, VStr x), (k2, VStr (''@node.a.'' @ z))]))"
proof -
  have not_dynamic: "\<not> (startswith (''node.a.'' @ s) ''{'' \<and> endswith (''node.a.'' @ s) ''}'')" for s
    by (simp add: startswith_def)
  have hit: "resolve_reference g ''@node.a.b'' = Inr (VStr x)"
  proof -
    have "CHR ''.'' \<notin> set ''b''" by simp
    from split_node_a_segment [OF this]
    have parts: "split_char (CHR ''.'') ''node.a.b'' = [''node'', ''a'', ''b'']" by simp
    have "\<not> (startswith ''node.a.b'' ''{'' \<and> endswith ''node.a.b'' ''}'')"
      using not_dynamic [of "''b''"] by simp
    then show ?thesis
      using assms(1,2) parts by (simp add: resolve_reference_def startswith_def)
  qed
  have miss: "resolve_reference g (''@node.a.'' @ z) = Inr (VStr (''@node.a.'' @ z))"
  proof -
    have parts: "split_char (CHR ''.'') (''node.a.'' @ z) = [''node'', ''a'', z]"
      using assms(4) by (rule split_node_a_segment)
    have "\<not> (startswith (''node.a.'' @ z) ''{'' \<and> endswith (''node.a.'' @ z) ''}'')"
      by (rule not_dynamic)
    then have "\<not> (startswith (drop 1 (''@node.a.'' @ z)) ''{'' \<and> endswith (drop 1 (''@node.a.'' @ z)) ''}'')"
      by simp
    moreover have "startswith (''@node.a.'' @ z) ''@''"
      by (simp add: startswith_def)
    moreover have "navigate (VDict (properties n)) (tl [''node'', ''a'', z]) = None"
      using assms(2,3) by simp
    moreover have "split_char (CHR ''.'') (drop 1 (''@node.a.'' @ z)) = [''node'', ''a'', z]"
      using parts by simp
    ultimately show ?thesis
      using assms(1) unfolding resolve_reference_def Let_def by simp
  qed
  have "compile_object g (properties m) = Inr [(k1, VStr x), (k2, VStr (''@node.a.'' @ z))]"
    using hit miss by (simp add: assms(5) startswith_def)
  then show ?thesis
    using hit miss by (simp add: compile_node_def)
qed

theorem resolve_reference_soft_fail_witness:
  "resolve_reference example_graph ''@node.a.b'' = Inr (VStr ''x'')
   \<and> resolve_reference example_graph ''@node.a.z'' = Inr (VStr ''@node.a.z'')
   \<and> (\<exists>c. compile_node example_graph example_referrer = Inr (VDict c)
          \<and> map_of c ''properties''
              = Some (VDict [(''hit'', VStr ''x''), (''miss'', VStr ''@node.a.z'')]))"
proof -
  let ?n = "\<lparr>node_type = ROLE, node_id = ''node'',
             properties = [(''a'', VDict [(''b'', VStr ''x'')])],
             metadata = VDict [], node_line = 1\<rparr>"
  have "map_of (graph_nodes example_graph) ''node'' = Some ?n"
    by (simp add: example_graph_def)
  moreover have "properties ?n = [(''a'', VDict [(''b'', VStr ''x'')])]"
    by simp
  moreover have "''z'' \<noteq> ''b''" and "CHR ''.'' \<notin> set ''z''"
    by simp_all
  moreover have "properties example_referrer
      = [(''hit'', VStr ''@node.a.b''), (''miss'', VStr (''@node.a.'' @ ''z''))]"
    by (simp add: example_referrer_def)
  ultimately show ?thesis
    using resolve_reference_soft_fail [of example_graph ?n "''x''" "''z''" example_referrer "''hit''" "''miss''"]
    by simp
qed

text \<open>
  C5. \<open>compile_node\<close> resolves a reference that is a property value, an element of an
  array, or a value inside nested mappings. A mapping that is an element of an array is
  copied as it is, in every graph and whatever it holds: the list comprehension resolves
  string elements only, so the reference inside \<open>mapping_in_array\<close> below stays
  unresolved, where \<open>compile_view\<close> does compile the mappings of its \<open>selectors\<close> array.
\<close>

theorem compile_node_skips_mapping_in_array:
  "compile_entry g (VList [VDict d]) = Inr (VList [VDict d])
   \<and> compile_node nesting_graph nesting_node =
     Inr (VDict [(''type'', VStr ''role''), (''id'', VStr ''n''),
       (''properties'', VDict
          [(''a'', VStr ''x''),
           (''direct'', VStr ''x''),
           (''in_array'', VList [VStr ''x'']),
           (''in_mapping'', VDict [(''r'', VDict [(''s'', VStr ''x'')])]),
           (''mapping_in_array'', VList [VDict [(''r'', VStr ''@n.a'')]])])])"
proof -
  have "compile_entry g (VList [VDict d]) = Inr (VList [VDict d])"
    by (simp add: compile_element_def)
  moreover have "compile_node nesting_graph nesting_node =
     Inr (VDict [(''type'', VStr ''role''), (''id'', VStr ''n''),
       (''properties'', VDict
          [(''a'', VStr ''x''),
           (''direct'', VStr ''x''),
           (''in_array'', VList [VStr ''x'']),
           (''in_mapping'', VDict [(''r'', VDict [(''s'', VStr ''x'')])]),
           (''mapping_in_array'', VList [VDict [(''r'', VStr ''@n.a'')]])])])"
    by code_simp
  ultimately show ?thesis
    by simp
qed

section \<open>Context fetch\<close>

text \<open>
  C2. A ctx node of context-type \<open>file\<close> that has a \<open>uri\<close> property does not get its
  file's text from \<open>fetch_context\<close> on a cache miss: the node's properties are passed as
  keyword arguments next to the positional \<open>uri\<close>, and the call of the file source raises
  \<open>TypeError\<close> before the source runs; the cache stays as it was.
\<close>

theorem fetch_context_file_uri_raises:
  assumes "map_of node ''properties'' = Some (VDict props)"
    and "map_of props ''type'' = None \<or> map_of props ''type'' = Some (VStr ''file'')"
    and "map_of props ''uri'' = Some (VStr uri)"
    and "map_of props ''self'' = None"
    and "map_of cache (''file:'' @ uri) = None"
    and "map_of (sources rt) ''file'' = Some FileContextSource_fetch"
  shows "fetch_context rt cache (VDict node)
           = (Inl (Error TypeError (''fetch() got multiple values for argument '' @ repr_str ''uri'')),
              cache)"
proof -
  have ctx_type: "py_get (VDict props) ''type'' (VStr ''file'') = Inr (VStr ''file'')"
    using assms(2) by (auto simp add: py_get_def dict_get_def)
  have uri: "py_get (VDict props) ''uri'' (VStr []) = Inr (VStr uri)"
    using assms(3) by (simp add: py_get_def dict_get_def)
  have call: "call_fetch FileContextSource_fetch (files rt) (VStr uri) props
      = Inl (Error TypeError (''fetch() got multiple values for argument '' @ repr_str ''uri''))"
    using assms(3,4) by (simp add: call_fetch_def has_key_def)
  show ?thesis
    using assms(1,5,6) ctx_type uri call
    by (simp add: fetch_context_def subscript_def py_str_def hashable_def)
qed

theorem fetch_context_file_uri_raises_witness:
  "fetch_context example_runtime []
     (VDict [(''type'', VStr ''ctx''), (''id'', VStr ''doc''),
             (''properties'', VDict [(''type'', VStr ''file''), (''uri'', VStr ''fs://x.txt'')])])
     = (Inl (Error TypeError (''fetch() got multiple values for argument '' @ repr_str ''uri'')), [])
   \<and> FileContextSource_fetch (files example_runtime) (VStr ''fs://x.txt'') [] = Inr (VStr ''hello'')"
proof -
  have "FileContextSource_fetch (files example_runtime) (VStr ''fs://x.txt'') [] = Inr (VStr ''hello'')"
    by (simp add: FileContextSource_fetch_def example_runtime_def startswith_def)
  moreover have "map_of (sources example_runtime) ''file'' = Some FileContextSource_fetch"
    by (simp add: example_runtime_def)
  ultimately show ?thesis
    using fetch_context_file_uri_raises
      [of "[(''type'', VStr ''ctx''), (''id'', VStr ''doc''),
            (''properties'', VDict [(''type'', VStr ''file''), (''uri'', VStr ''fs://x.txt'')])]"
          "[(''type'', VStr ''file''), (''uri'', VStr ''fs://x.txt'')]"
          "''fs://x.txt''" "[]" example_runtime]
    by simp
qed


section \<open>Selector batches\<close>

lemma update_fresh_key:
  "key \<notin> fst ` set al \<Longrightarrow> AList.update key v al = al @ [(key, v)]"
  by (induction al) auto

lemma resolve_selectors_loop_appends:
  assumes "map selector_key sels = map Inr keys"
    and "distinct keys" and "set keys \<inter> fst ` set resolved = {}"
  shows "resolve_selectors_loop rt sels resolved cache
           = (Inr (resolved @ zip keys (spec_selector_outcomes rt cache sels)),
              spec_cache_after_selectors rt cache sels)"
  using assms
proof (induction sels arbitrary: keys resolved cache)
  case Nil
  then show ?case by simp
next
  case (Cons selector rest)
  then obtain key keys' where keys: "keys = key # keys'"
    and key: "selector_key selector = Inr key"
    and rest: "map selector_key rest = map Inr keys'"
    by (cases keys) auto
  obtain r cache' where run: "execute_selector rt cache selector = (r, cache')"
    by (cases "execute_selector rt cache selector")
  let ?v = "spec_selector_outcome r"
  have fresh: "key \<notin> fst ` set resolved"
    using Cons.prems(3) keys by auto
  have step: "resolve_selectors_loop rt (selector # rest) resolved cache
      = resolve_selectors_loop rt rest (resolved @ [(key, ?v)]) cache'"
    using key run fresh
    by (cases r) (simp_all add: spec_selector_outcome_def update_fresh_key)
  have "resolve_selectors_loop rt rest (resolved @ [(key, ?v)]) cache'
      = (Inr ((resolved @ [(key, ?v)]) @ zip keys' (spec_selector_outcomes rt cache' rest)),
         spec_cache_after_selectors rt cache' rest)"
  proof (rule Cons.IH [OF rest])
    show "distinct keys'"
      using Cons.prems(2) keys by simp
    show "set keys' \<inter> fst ` set (resolved @ [(key, ?v)]) = {}"
      using Cons.prems(2,3) keys by auto
  qed
  then show ?case
    using step keys run by simp
qed

text \<open>
  Exceptions raised inside \<open>execute_selector\<close> are contained. In a batch where the
  result key of every selector can be computed, the keys pairwise distinct, every
  selector is executed, in order, and the result maps each selector's key to that
  selector's own outcome: its result, or the string \<open>[Error: ...]\<close> when its execution
  raised.
\<close>

lemma resolve_selectors_contains_execution_failures:
  assumes "map selector_key sels = map Inr keys" and "distinct keys"
  shows "resolve_selectors rt cache (VList sels)
           = (Inr (zip keys (spec_selector_outcomes rt cache sels)), spec_cache_after_selectors rt cache sels)
       \<and> length (spec_selector_outcomes rt cache sels) = length sels
       \<and> (\<forall>i < length sels.
             spec_selector_outcomes rt cache sels ! i
               = (case fst (execute_selector rt (spec_cache_after_selectors rt cache (take i sels)) (sels ! i)) of
                    Inr v \<Rightarrow> v
                  | Inl e \<Rightarrow> VStr (''[Error: '' @ exc_text e @ '']'')))"
proof -
  have run: "resolve_selectors rt cache (VList sels)
      = (Inr (zip keys (spec_selector_outcomes rt cache sels)), spec_cache_after_selectors rt cache sels)"
    using resolve_selectors_loop_appends [OF assms, of "[]" rt cache]
    by (simp add: resolve_selectors_def py_iter_def)
  have len: "length (spec_selector_outcomes rt cache sels) = length sels"
    by (induction sels arbitrary: cache) simp_all
  have nth: "i < length sels \<Longrightarrow>
      spec_selector_outcomes rt cache sels ! i
        = spec_selector_outcome (fst (execute_selector rt (spec_cache_after_selectors rt cache (take i sels)) (sels ! i)))"
    for i
  proof (induction sels arbitrary: cache i)
    case Nil
    then show ?case by simp
  next
    case (Cons selector rest)
    then show ?case by (cases i) simp_all
  qed
  show ?thesis
    using run len nth by (auto simp add: spec_selector_outcome_def error_marker_def split: sum.splits)
qed

lemma resolve_selectors_contains_execution_failures_example:
  "resolve_selectors example_runtime [] (VList example_batch)
     = (Inr [(''missing'', VStr ''[Error: Unknown node: @missing]''),
             (''r'', VDict [(''name'', VStr ''Reviewer'')]),
             (''data'', VStr ''two'')], [])"
proof -
  have keys: "map selector_key example_batch = map Inr [''missing'', ''r'', ''data'']"
    by code_simp
  have outcomes: "spec_selector_outcomes example_runtime [] example_batch
      = [VStr ''[Error: Unknown node: @missing]'', VDict [(''name'', VStr ''Reviewer'')], VStr ''two'']"
    by code_simp
  have cache: "spec_cache_after_selectors example_runtime [] example_batch = []"
    by code_simp
  have "distinct [''missing'', ''r'', ''data'']"
    by simp
  from resolve_selectors_contains_execution_failures [OF keys this, of example_runtime "[]"]
  show ?thesis
    by (simp add: outcomes cache)
qed


text \<open>
  C6. One selector's failure does prevent the others from being resolved when it is
  raised while the result key is computed: \<open>from_ref.startswith('@')\<close> stands before the
  \<open>try\<close>, so a selector whose \<open>from\<close> is not a string ends \<open>resolve_selectors\<close> with an
  \<open>AttributeError\<close>, whatever the other selectors are, and no key is bound to an error
  marker. The same exception raised by the same expression inside \<open>execute_selector\<close>
  would be caught, and the other two selectors of the batch resolve when they are alone.
\<close>

theorem resolve_selectors_key_failure_aborts_batch:
  "resolve_selectors rt cache (VList (VDict [(''from'', VInt n), (''op'', op)] # rest))
     = (Inl (no_attribute (VInt n) ''startswith''), cache)
   \<and> resolve_selectors example_runtime [] (VList unkeyed_batch)
     = (Inl (Error AttributeError
               ([CHR 0x27] @ ''int'' @ [CHR 0x27] @ '' object has no attribute ''
                @ [CHR 0x27] @ ''startswith'' @ [CHR 0x27])), [])
   \<and> execute_selector example_runtime [] (VDict [(''from'', VInt 5), (''op'', VStr ''head'')])
     = (Inl (Error AttributeError
               ([CHR 0x27] @ ''int'' @ [CHR 0x27] @ '' object has no attribute ''
                @ [CHR 0x27] @ ''startswith'' @ [CHR 0x27])), [])
   \<and> resolve_selectors example_runtime []
         (VList [VDict [(''from'', VStr ''@r''), (''op'', VStr ''head'')],
                 VDict [(''from'', VStr (''one'' @ [LF] @ ''two'')), (''op'', VStr ''tail''),
                        (''lines'', VInt 1)]])
     = (Inr [(''r'', VDict [(''name'', VStr ''Reviewer'')]), (''data'', VStr ''two'')], [])"
proof -
  have "resolve_selectors rt cache (VList (VDict [(''from'', VInt n), (''op'', op)] # rest))
     = (Inl (no_attribute (VInt n) ''startswith''), cache)"
    by (simp add: resolve_selectors_def py_iter_def selector_key_def py_get_def dict_get_def)
  moreover have "resolve_selectors example_runtime [] (VList unkeyed_batch)
     = (Inl (Error AttributeError
               ([CHR 0x27] @ ''int'' @ [CHR 0x27] @ '' object has no attribute ''
                @ [CHR 0x27] @ ''startswith'' @ [CHR 0x27])), [])
   \<and> execute_selector example_runtime [] (VDict [(''from'', VInt 5), (''op'', VStr ''head'')])
     = (Inl (Error AttributeError
               ([CHR 0x27] @ ''int'' @ [CHR 0x27] @ '' object has no attribute ''
                @ [CHR 0x27] @ ''startswith'' @ [CHR 0x27])), [])
   \<and> resolve_selectors example_runtime []
         (VList [VDict [(''from'', VStr ''@r''), (''op'', VStr ''head'')],
                 VDict [(''from'', VStr (''one'' @ [LF] @ ''two'')), (''op'', VStr ''tail''),
                        (''lines'', VInt 1)]])
     = (Inr [(''r'', VDict [(''name'', VStr ''Reviewer'')]), (''data'', VStr ''two'')], [])"
    by code_simp
  ultimately show ?thesis
    by simp
qed


section \<open>Flow execution\<close>

lemma reference_root_plain:
  "CHR ''.'' \<notin> set t \<Longrightarrow> reference_root (''@'' @ t) = t"
  using split_char_last [of "CHR ''.''" t "[]"]
  by (simp add: reference_root_def split_char_def)

lemma execute_edges_in_order:
  assumes "map (\<lambda>e. map_of e ''to'') edges = map (\<lambda>t. Some (VStr (''@'' @ t))) targets"
  shows "execute_edges rt cache (map VDict edges) results
           = (case spec_run_tasks_in_order rt cache (map (\<lambda>t. reference_root (''@'' @ t)) targets) of
                (Inl e, cache') \<Rightarrow> (Inl e, cache')
              | (Inr rs, cache') \<Rightarrow> (Inr (results @ rs), cache'))"
  using assms
proof (induction edges arbitrary: targets cache results)
  case Nil
  then show ?case by simp
next
  case (Cons edge rest)
  then obtain t ts where targets: "targets = t # ts"
    and to: "map_of edge ''to'' = Some (VStr (''@'' @ t))"
    and rest: "map (\<lambda>e. map_of e ''to'') rest = map (\<lambda>t. Some (VStr (''@'' @ t))) ts"
    by (cases targets) auto
  have get_to: "py_get (VDict edge) ''to'' (VStr []) = Inr (VStr (''@'' @ t))"
    using to by (simp add: py_get_def dict_get_def)
  have get_from: "\<exists>f. py_get (VDict edge) ''from'' (VStr []) = Inr f"
    by (simp add: py_get_def)
  obtain r cache' where run: "execute_task rt cache (reference_root (''@'' @ t)) = (r, cache')"
    by (cases "execute_task rt cache (reference_root (''@'' @ t))")
  show ?case
  proof (cases r)
    case (Inl e)
    then show ?thesis
      using get_to get_from run targets by (auto simp add: startswith_def)
  next
    case (Inr result)
    have "execute_edges rt cache (map VDict (edge # rest)) results
        = execute_edges rt cache' (map VDict rest) (results @ [result])"
      using get_to get_from run Inr by (auto simp add: startswith_def)
    also have "\<dots> = (case spec_run_tasks_in_order rt cache' (map (\<lambda>t. reference_root (''@'' @ t)) ts) of
                (Inl e, cache'') \<Rightarrow> (Inl e, cache'')
              | (Inr rs, cache'') \<Rightarrow> (Inr ((results @ [result]) @ rs), cache''))"
      by (rule Cons.IH [OF rest])
    finally show ?thesis
      using run Inr targets by (auto split: prod.splits sum.splits)
  qed
qed

text \<open>
  C7. A flow whose \<open>entry\<close> is a task reference and whose edges each have a task
  reference as \<open>to\<close> runs the entry task first and then the \<open>to\<close> task of every edge,
  once per edge and in the order of the edges, each task in the state the one before
  left; the \<open>results\<close> of the flow are the results of these tasks in that order. Nothing
  else in the flow record or in an edge (\<open>from\<close>, \<open>parallel\<close>, \<open>conditional\<close>,
  \<open>schedule\<close>) is read. The flow ends with the exception of the first task that raises.
\<close>

theorem execute_flow_entry_then_edges:
  assumes "find_by_id (flows rt) flow_id = Inr (Some (VDict flow))"
    and "map_of flow ''entry'' = Some (VStr (''@'' @ entry))"
    and "map_of flow ''edges'' = Some (VList (map VDict edges))"
    and "map (\<lambda>e. map_of e ''to'') edges = map (\<lambda>t. Some (VStr (''@'' @ t))) targets"
  shows "execute_flow rt cache flow_id
           = (case spec_run_tasks_in_order rt cache
                     (reference_root (''@'' @ entry) # map (\<lambda>t. reference_root (''@'' @ t)) targets) of
                (Inl e, cache') \<Rightarrow> (Inl e, cache')
              | (Inr results, cache') \<Rightarrow>
                  (Inr (VDict [(''flow_id'', flow_id), (''results'', VList results)]), cache'))"
proof -
  obtain r cache1 where run: "execute_task rt cache (reference_root (''@'' @ entry)) = (r, cache1)"
    by (cases "execute_task rt cache (reference_root (''@'' @ entry))")
  have edges: "py_iter (dict_get flow ''edges'' (VList [])) = Inr (map VDict edges)"
    using assms(3) by (simp add: py_iter_def dict_get_def)
  show ?thesis
  proof (cases r)
    case (Inl e)
    then have "execute_entry rt cache flow = (Inl e, cache1)"
      using assms(2) run by (simp add: execute_entry_def startswith_def)
    then show ?thesis
      using assms(1) run Inl by (simp add: execute_flow_def)
  next
    case (Inr result)
    then have entry: "execute_entry rt cache flow = (Inr [result], cache1)"
      using assms(2) run by (simp add: execute_entry_def startswith_def)
    note rest = execute_edges_in_order [OF assms(4), of rt cache1 "[result]"]
    show ?thesis
      using assms(1) run Inr entry edges rest
      by (auto simp add: execute_flow_def split: prod.splits sum.splits)
  qed
qed

theorem execute_flow_entry_then_edges_witness:
  "execute_flow example_runtime [] (VStr ''f'')
     = (Inr (VDict
         [(''flow_id'', VStr ''f''),
          (''results'', VList
             [VDict [(''task_id'', VStr ''taskA''),
                     (''task'', VDict [(''goal'', VStr ''first'')]),
                     (''view_result'', VDict
                        [(''view_id'', VStr ''vA''), (''task'', VStr ''@taskA''),
                         (''role'', VDict [(''name'', VStr ''Reviewer'')]),
                         (''model'', VNull),
                         (''resolved_context'', VDict [(''r'', VDict [(''name'', VStr ''Reviewer'')])]),
                         (''prompt'', VDict [(''user'', VStr ''Hi Bob'')]),
                         (''response_format'', VNull), (''asserts'', VList [])])],
              VDict [(''task_id'', VStr ''taskB''), (''status'', VStr ''no_views'')]])]), [])"
proof -
  let ?flow = "[(''id'', VStr ''f''), (''type'', VStr ''flow''),
                (''entry'', VStr ''@taskA''),
                (''edges'', VList [VDict [(''from'', VStr ''@taskA''), (''to'', VStr ''@taskB'')]]),
                (''conditional'', VDict [(''when'', VStr ''never'')])]"
  let ?edges = "[[(''from'', VStr ''@taskA''), (''to'', VStr ''@taskB'')]]"
  have found: "find_by_id (flows example_runtime) (VStr ''f'') = Inr (Some (VDict ?flow))"
    by (simp add: example_runtime_def subscript_def)
  have entry: "map_of ?flow ''entry'' = Some (VStr (''@'' @ ''taskA''))"
    by simp
  have edges: "map_of ?flow ''edges'' = Some (VList (map VDict ?edges))"
    by simp
  have targets: "map (\<lambda>e. map_of e ''to'') ?edges = map (\<lambda>t. Some (VStr (''@'' @ t))) [''taskB'']"
    by simp
  have roots: "reference_root (''@'' @ ''taskA'') = ''taskA''"
      "map (\<lambda>t. reference_root (''@'' @ t)) [''taskB''] = [''taskB'']"
    using reference_root_plain [of "''taskA''"] reference_root_plain [of "''taskB''"]
    by simp_all
  have run: "spec_run_tasks_in_order example_runtime [] [''taskA'', ''taskB'']
      = (Inr [VDict [(''task_id'', VStr ''taskA''),
                     (''task'', VDict [(''goal'', VStr ''first'')]),
                     (''view_result'', VDict
                        [(''view_id'', VStr ''vA''), (''task'', VStr ''@taskA''),
                         (''role'', VDict [(''name'', VStr ''Reviewer'')]),
                         (''model'', VNull),
                         (''resolved_context'', VDict [(''r'', VDict [(''name'', VStr ''Reviewer'')])]),
                         (''prompt'', VDict [(''user'', VStr ''Hi Bob'')]),
                         (''response_format'', VNull), (''asserts'', VList [])])],
              VDict [(''task_id'', VStr ''taskB''), (''status'', VStr ''no_views'')]], [])"
    by code_simp
  show ?thesis
    using execute_flow_entry_then_edges [OF found entry edges targets, of "[]"]
    unfolding roots run by simp
qed


section \<open>Template rendering\<close>

text \<open>
  C3. A template that holds a filter form of a variable and not the plain placeholder
  \<open>{{xs}}\<close> is left as it is: \<open>render_template\<close> looks at a list variable only when the
  plain placeholder occurs in the text, which neither \<open>{{xs | bulletize}}\<close> nor
  \<open>{{xs | join(', ')}}\<close> contains. With the plain placeholder also in the text, the filter
  form is replaced (and the plain placeholder stays).
\<close>

theorem render_template_filter_form_alone_untouched:
  "render_template example_runtime ''{{xs | bulletize}}'' [(''xs'', VList [VStr ''a'', VStr ''b''])]
     = Inr ''{{xs | bulletize}}''
   \<and> render_template example_runtime (''{{xs | join('' @ [CHR 0x27] @ '', '' @ [CHR 0x27] @ '')}}'')
         [(''xs'', VList [VStr ''a'', VStr ''b''])]
     = Inr (''{{xs | join('' @ [CHR 0x27] @ '', '' @ [CHR 0x27] @ '')}}'')
   \<and> render_template example_runtime ''{{xs}} {{xs | bulletize}}'' [(''xs'', VList [VStr ''a'', VStr ''b''])]
     = Inr (''{{xs}} '' @ bullet @ '' a'' @ [LF] @ bullet @ '' b'')
   \<and> render_template example_runtime (''{{xs}} {{xs | join('' @ [CHR 0x27] @ '', '' @ [CHR 0x27] @ '')}}'')
         [(''xs'', VList [VStr ''a'', VStr ''b''])]
     = Inr ''{{xs}} a, b''"
  by code_simp

text \<open>
  C8. A signal that is set to a value Python counts as false (\<open>0\<close>, the empty string,
  \<open>False\<close>) is not substituted, in any text and under any name: \<open>{{signal.count}}\<close> stays
  in the text although \<open>count\<close> is set to \<open>0\<close>, where the plain placeholder \<open>{{count}}\<close>
  of the same value is replaced by \<open>0\<close> and a signal with a non-empty value is
  substituted.
\<close>

theorem render_template_skips_false_signal:
  "render_signals (rt\<lparr>signals := [(name, VInt 0)]\<rparr>) [name] text = text
   \<and> render_signals (rt\<lparr>signals := [(name, VStr [])]\<rparr>) [name] text = text
   \<and> get_signal example_runtime ''count'' = VInt 0
   \<and> render_template example_runtime ''n={{signal.count}}'' [] = Inr ''n={{signal.count}}''
   \<and> render_template example_runtime ''n={{count}}'' [(''count'', VInt 0)] = Inr ''n=0''
   \<and> render_template example_runtime ''Hi {{signal.name}}'' [] = Inr ''Hi Bob''"
proof -
  have "render_signals (rt\<lparr>signals := [(name, VInt 0)]\<rparr>) [name] text = text"
    and "render_signals (rt\<lparr>signals := [(name, VStr [])]\<rparr>) [name] text = text"
    by (simp_all add: get_signal_def)
  moreover have "get_signal example_runtime ''count'' = VInt 0
     \<and> render_template example_runtime ''n={{signal.count}}'' [] = Inr ''n={{signal.count}}''
     \<and> render_template example_runtime ''n={{count}}'' [(''count'', VInt 0)] = Inr ''n=0''
     \<and> render_template example_runtime ''Hi {{signal.name}}'' [] = Inr ''Hi Bob''"
    by code_simp
  ultimately show ?thesis
    by simp
qed

section \<open>Multi-line strings\<close>

lemma current_char_at:
  "lexer_at lx before after \<Longrightarrow>
     current_char lx = (case after of [] \<Rightarrow> None | c # cs \<Rightarrow> Some c)"
  by (cases after) (simp_all add: lexer_at_def current_char_def nth_append)

lemma advance_at:
  "lexer_at lx before (c # after) \<Longrightarrow> lexer_at (advance lx) (before @ [c]) after"
  by (simp add: lexer_at_def advance_def)

lemma skip_to_newline_at:
  "LF \<notin> set h \<Longrightarrow> lexer_at lx before (h @ LF # after) \<Longrightarrow>
     lexer_at (skip_to_newline lx) (before @ h) (LF # after)"
proof (induction h arbitrary: lx before)
  case Nil
  then have "current_char lx = Some LF"
    by (simp add: current_char_at)
  then show ?case
    using Nil by (simp add: skip_to_newline.simps [of lx])
next
  case (Cons c h)
  then have cc: "current_char lx = Some c" and c: "c \<noteq> LF"
    by (auto simp add: current_char_at)
  have adv: "lexer_at (advance lx) (before @ [c]) (h @ LF # after)"
    using advance_at [of lx before c "h @ LF # after"] Cons.prems(2) by simp
  have "LF \<notin> set h"
    using Cons.prems(1) by simp
  from Cons.IH [OF this adv]
  have "lexer_at (skip_to_newline (advance lx)) ((before @ [c]) @ h) (LF # after)" .
  moreover have "skip_to_newline lx = skip_to_newline (advance lx)"
    using cc c by (simp add: skip_to_newline.simps [of lx])
  ultimately show ?case
    by simp
qed

lemma count_indent_at:
  "list_all is_indent ws \<Longrightarrow> after = [] \<or> \<not> is_indent (hd after) \<Longrightarrow>
   lexer_at lx before (ws @ after) \<Longrightarrow>
     fst (count_indent lx n) = n + length ws
     \<and> lexer_at (snd (count_indent lx n)) (before @ ws) after"
proof (induction ws arbitrary: lx before n)
  case Nil
  then have "current_char lx = None \<or> (\<exists>c. current_char lx = Some c \<and> \<not> is_indent c)"
    by (cases after) (auto simp add: current_char_at)
  then show ?case
    using Nil by (auto simp add: count_indent.simps [of lx n])
next
  case (Cons c ws)
  then have cc: "current_char lx = Some c" and c: "is_indent c"
    by (auto simp add: current_char_at)
  have adv: "lexer_at (advance lx) (before @ [c]) (ws @ after)"
    using advance_at [of lx before c "ws @ after"] Cons.prems(3) by simp
  have "list_all is_indent ws"
    using Cons.prems(1) by simp
  from Cons.IH [OF this Cons.prems(2) adv, of "n + 1"]
  have "fst (count_indent (advance lx) (n + 1)) = (n + 1) + length ws
      \<and> lexer_at (snd (count_indent (advance lx) (n + 1))) ((before @ [c]) @ ws) after" .
  moreover have "count_indent lx n = count_indent (advance lx) (n + 1)"
    using cc c by (simp add: count_indent.simps [of lx n])
  ultimately show ?case
    by simp
qed

lemma multiline_body_text:
  "LF \<notin> set t \<Longrightarrow> lexer_at lx before (t @ after) \<Longrightarrow>
     \<exists>lx'. lexer_at lx' (before @ t) after
       \<and> multiline_body b lx lines cur = multiline_body b lx' lines (cur @ t)"
proof (induction t arbitrary: lx before cur)
  case Nil
  then show ?case by auto
next
  case (Cons c t)
  then have cc: "current_char lx = Some c" and c: "c \<noteq> LF"
    by (auto simp add: current_char_at)
  have adv: "lexer_at (advance lx) (before @ [c]) (t @ after)"
    using advance_at [of lx before c "t @ after"] Cons.prems(2) by simp
  have "LF \<notin> set t"
    using Cons.prems(1) by simp
  from Cons.IH [OF this adv, of "cur @ [c]"]
  obtain lx' where lx': "lexer_at lx' ((before @ [c]) @ t) after"
    and run: "multiline_body b (advance lx) lines (cur @ [c])
        = multiline_body b lx' lines ((cur @ [c]) @ t)"
    by blast
  have "multiline_body b lx lines cur = multiline_body b (advance lx) lines (cur @ [c])"
    using cc c by (simp add: multiline_body.simps [of b lx lines cur])
  then show ?case
    using lx' run by auto
qed

lemma multiline_body_newline:
  assumes "list_all is_indent ws" and "after = [] \<or> \<not> is_indent (hd after)"
    and "lexer_at lx before (LF # ws @ after)"
  shows "length ws < b \<and> after \<noteq> [] \<and> hd after \<noteq> LF \<Longrightarrow>
           \<exists>lx'. lexer_at lx' (before @ [LF]) (ws @ after)
             \<and> multiline_body b lx lines cur = (lines @ [cur], [], lx')"
    and "\<not> (length ws < b \<and> after \<noteq> [] \<and> hd after \<noteq> LF) \<Longrightarrow>
           \<exists>lx'. lexer_at lx' (before @ LF # ws) after
             \<and> multiline_body b lx lines cur = multiline_body b lx' (lines @ [cur]) []"
proof -
  let ?lx1 = "advance lx"
  let ?lx2 = "snd (count_indent ?lx1 0)"
  have cc: "current_char lx = Some LF"
    using assms(3) by (simp add: current_char_at)
  have lx1: "lexer_at ?lx1 (before @ [LF]) (ws @ after)"
    using assms(3) by (rule advance_at)
  have counted: "fst (count_indent ?lx1 0) = length ws"
    and lx2: "lexer_at ?lx2 ((before @ [LF]) @ ws) after"
    using count_indent_at [OF assms(1,2) lx1, of 0] by simp_all
  have cc2: "current_char ?lx2 = (case after of [] \<Rightarrow> None | c # cs \<Rightarrow> Some c)"
    using lx2 by (rule current_char_at)
  have stop: "(current_char ?lx2 \<noteq> None \<and> current_char ?lx2 \<noteq> Some LF)
      = (after \<noteq> [] \<and> hd after \<noteq> LF)"
    using cc2 by (cases after) simp_all
  {
    assume less: "length ws < b \<and> after \<noteq> [] \<and> hd after \<noteq> LF"
    have "multiline_body b lx lines cur
        = (lines @ [cur], [], ?lx2\<lparr>lx_pos := lx_pos ?lx1\<rparr>)"
      using cc counted stop less by (simp add: multiline_body.simps [of b lx lines cur] Let_def)
    moreover have "lexer_at (?lx2\<lparr>lx_pos := lx_pos ?lx1\<rparr>) (before @ [LF]) (ws @ after)"
      using lx1 lx2 by (simp add: lexer_at_def)
    ultimately show "\<exists>lx'. lexer_at lx' (before @ [LF]) (ws @ after)
        \<and> multiline_body b lx lines cur = (lines @ [cur], [], lx')"
      by blast
  }
  {
    assume more: "\<not> (length ws < b \<and> after \<noteq> [] \<and> hd after \<noteq> LF)"
    have "multiline_body b lx lines cur = multiline_body b ?lx2 (lines @ [cur]) []"
      using cc counted stop more by (auto simp add: multiline_body.simps [of b lx lines cur] Let_def)
    then show "\<exists>lx'. lexer_at lx' (before @ LF # ws) after
        \<and> multiline_body b lx lines cur = multiline_body b lx' (lines @ [cur]) []"
      using lx2 by auto
  }
qed

lemma multiline_body_lines:
  assumes "list_all (body_line_ok b) body"
    and "list_all is_indent indentE" and "length indentE < b"
    and "textE \<noteq> []" and "\<not> is_indent (hd textE)" and "hd textE \<noteq> LF"
    and "lexer_at lx before (body_text body @ LF # indentE @ textE)"
  shows "\<exists>lx'. lexer_at lx' (before @ body_text body @ [LF]) (indentE @ textE)
           \<and> multiline_body b lx lines cur = (lines @ cur # map snd body, [], lx')"
  using assms(1,7)
proof (induction body arbitrary: lx before lines cur)
  case Nil
  then have "lexer_at lx before (LF # indentE @ textE)"
    by (simp add: body_text_def)
  from multiline_body_newline(1) [OF assms(2) _ this, of b lines cur]
  show ?case
    using assms(3,4,5,6) by (simp add: body_text_def)
next
  case (Cons l body)
  obtain ind t where l: "l = (ind, t)"
    by (cases l)
  let ?rest = "body_text body @ LF # indentE @ textE"
  have ok: "list_all is_indent ind" "LF \<notin> set t"
    "t = [] \<or> (\<not> is_indent (hd t) \<and> b \<le> length ind)"
    using Cons.prems(1) l by (simp_all add: body_line_ok_def)
  have rest_head: "?rest \<noteq> [] \<and> hd ?rest = LF"
    by (cases body) (simp_all add: body_text_def)
  have start: "lexer_at lx before (LF # ind @ (t @ ?rest))"
    using Cons.prems(2) l by (simp add: body_text_def)
  have next_char: "t @ ?rest = [] \<or> \<not> is_indent (hd (t @ ?rest))"
    using ok(3) rest_head by (cases t) (auto simp add: is_indent_def LF_def TAB_def)
  have continue: "\<not> (length ind < b \<and> t @ ?rest \<noteq> [] \<and> hd (t @ ?rest) \<noteq> LF)"
    using ok(3) rest_head by (cases t) auto
  from multiline_body_newline(2) [OF ok(1) next_char start continue, of lines cur]
  obtain lx1 where lx1: "lexer_at lx1 (before @ LF # ind) (t @ ?rest)"
    and run1: "multiline_body b lx lines cur = multiline_body b lx1 (lines @ [cur]) []"
    by blast
  from multiline_body_text [OF ok(2) lx1, of b "lines @ [cur]" "[]"]
  obtain lx2 where lx2: "lexer_at lx2 ((before @ LF # ind) @ t) ?rest"
    and run2: "multiline_body b lx1 (lines @ [cur]) [] = multiline_body b lx2 (lines @ [cur]) t"
    by auto
  have "list_all (body_line_ok b) body"
    using Cons.prems(1) by simp
  from Cons.IH [OF this lx2, of "lines @ [cur]" t]
  obtain lx' where lx': "lexer_at lx' (((before @ LF # ind) @ t) @ body_text body @ [LF]) (indentE @ textE)"
    and run3: "multiline_body b lx2 (lines @ [cur]) t = ((lines @ [cur]) @ t # map snd body, [], lx')"
    by blast
  have "lexer_at lx' (before @ body_text (l # body) @ [LF]) (indentE @ textE)"
    using lx' l by (simp add: body_text_def)
  moreover have "multiline_body b lx lines cur = (lines @ cur # map snd (l # body), [], lx')"
    using run1 run2 run3 l by simp
  ultimately show ?case
    by blast
qed

text \<open>
  C4, as the lexer does it. After the \<open>|\<close> and the rest of its line, the first body
  line gives \<open>base_indent\<close>; the value of the string token is the text of the body
  lines, newline-joined, the first line without its indentation and every later line
  without any of its leading spaces and tabs, so a line indented deeper than the first
  keeps none of its extra indentation. The body ends at the first line that is not blank
  and is indented less than the first body line; that line is not consumed, the position
  is set back to its start.
\<close>

theorem read_multiline_string_strips_all_indentation:
  assumes "LF \<notin> set header"
    and "list_all is_indent indent0" and "LF \<notin> set text0"
    and "text0 = [] \<or> \<not> is_indent (hd text0)"
    and "list_all (body_line_ok (length indent0)) body"
    and "list_all is_indent indentE" and "length indentE < length indent0"
    and "textE \<noteq> []" and "\<not> is_indent (hd textE)" and "hd textE \<noteq> LF"
    and "lx_source lx = before @ CHR ''|'' # header @ LF # indent0 @ text0
                          @ body_text body @ LF # indentE @ textE"
    and "lx_pos lx = length before"
  shows "fst (read_multiline_string lx) = join [LF] (text0 # map snd body)
       \<and> lx_source (snd (read_multiline_string lx)) = lx_source lx
       \<and> lx_pos (snd (read_multiline_string lx))
           = length (before @ CHR ''|'' # header @ LF # indent0 @ text0 @ body_text body @ [LF])"
proof -
  let ?tail = "body_text body @ LF # indentE @ textE"
  have tail_head: "?tail \<noteq> [] \<and> hd ?tail = LF"
    by (cases body) (simp_all add: body_text_def)
  have start: "lexer_at lx before (CHR ''|'' # header @ LF # indent0 @ text0 @ ?tail)"
    using assms(11,12) by (simp add: lexer_at_def)
  let ?lx1 = "skip_to_newline (advance lx)"
  have "lexer_at (advance lx) (before @ ''|'') (header @ LF # indent0 @ text0 @ ?tail)"
    using start by (rule advance_at)
  from skip_to_newline_at [OF assms(1) this]
  have lx1: "lexer_at ?lx1 ((before @ ''|'') @ header) (LF # indent0 @ text0 @ ?tail)" .
  then have cc1: "current_char ?lx1 = Some LF"
    by (simp add: current_char_at)
  let ?lx2 = "advance ?lx1"
  have lx2: "lexer_at ?lx2 (((before @ ''|'') @ header) @ [LF]) (indent0 @ (text0 @ ?tail))"
    using lx1 by (rule advance_at)
  have after_indent: "text0 @ ?tail = [] \<or> \<not> is_indent (hd (text0 @ ?tail))"
    using assms(4) tail_head by (cases text0) (auto simp add: is_indent_def LF_def TAB_def)
  let ?counted = "count_indent ?lx2 0"
  have base: "fst ?counted = length indent0"
    and lx3: "lexer_at (snd ?counted) ((((before @ ''|'') @ header) @ [LF]) @ indent0) (text0 @ ?tail)"
    using count_indent_at [OF assms(2) after_indent lx2, of 0] by simp_all
  from multiline_body_text [OF assms(3) lx3, of "length indent0" "[]" "[]"]
  obtain lx4 where lx4: "lexer_at lx4 (((((before @ ''|'') @ header) @ [LF]) @ indent0) @ text0) ?tail"
    and run1: "multiline_body (length indent0) (snd ?counted) [] []
        = multiline_body (length indent0) lx4 [] text0"
    by auto
  from multiline_body_lines [OF assms(5,6,7,8,9,10) lx4, of "[]" text0]
  obtain lx5 where lx5: "lexer_at lx5
        ((((((before @ ''|'') @ header) @ [LF]) @ indent0) @ text0) @ body_text body @ [LF])
        (indentE @ textE)"
    and run2: "multiline_body (length indent0) lx4 [] text0 = ([] @ text0 # map snd body, [], lx5)"
    by blast
  have body: "multiline_body (fst ?counted) (snd ?counted) [] [] = (text0 # map snd body, [], lx5)"
    using base run1 run2 by simp
  have result: "read_multiline_string lx = (join [LF] (text0 # map snd body), lx5)"
    using cc1 body by (simp add: read_multiline_string_def Let_def)
  show ?thesis
    using result lx5 assms(11) by (simp add: lexer_at_def)
qed

theorem read_multiline_string_strips_all_indentation_witness:
  "fst (read_multiline_string
          (lexer_on (''| note'' @ [LF] @ ''  a'' @ [LF] @ [LF] @ ''      b c'' @ [LF] @ '' }'')))
     = ''a'' @ [LF] @ [LF] @ ''b c''
   \<and> lx_pos (snd (read_multiline_string
          (lexer_on (''| note'' @ [LF] @ ''  a'' @ [LF] @ [LF] @ ''      b c'' @ [LF] @ '' }''))))
     = 22"
proof -
  let ?lx = "lexer_on (''| note'' @ [LF] @ ''  a'' @ [LF] @ [LF] @ ''      b c'' @ [LF] @ '' }'')"
  let ?body = "[([], []), (''      '', ''b c'')]"
  have "LF \<notin> set '' note''" and "list_all is_indent ''  ''" and "LF \<notin> set ''a''"
    and "''a'' = [] \<or> \<not> is_indent (hd ''a'')"
    and "list_all (body_line_ok (length ''  '')) ?body"
    and "list_all is_indent '' ''" and "length '' '' < length ''  ''"
    and "''}'' \<noteq> []" and "\<not> is_indent (hd ''}'')" and "hd ''}'' \<noteq> LF"
    and "lx_source ?lx = [] @ CHR ''|'' # '' note'' @ LF # ''  '' @ ''a'' @ body_text ?body @ LF # '' '' @ ''}''"
    and "lx_pos ?lx = length ([] :: string)"
    by (simp_all add: LF_def TAB_def is_indent_def body_line_ok_def body_text_def lexer_on_def)
  from read_multiline_string_strips_all_indentation [OF this]
  show ?thesis
    by (simp add: body_text_def)
qed

text \<open>
  The claim as it is stated (every line loses exactly the indentation of the first body
  line) fails on a body whose second line is indented deeper than the first. A blank
  line, although indented less than the first body line, does not end the body either.
\<close>

theorem multiline_deeper_line_loses_indentation:
  "fst (read_multiline_string (lexer_on (''|'' @ [LF] @ ''  a'' @ [LF] @ ''    b'' @ [LF] @ ''x'')))
     = ''a'' @ [LF] @ ''b''
   \<and> spec_strip_common_indentation [''  a'', ''    b''] = ''a'' @ [LF] @ ''  b''
   \<and> fst (read_multiline_string (lexer_on (''|'' @ [LF] @ ''  a'' @ [LF] @ ''    b'' @ [LF] @ ''x'')))
     \<noteq> spec_strip_common_indentation [''  a'', ''    b'']
   \<and> fst (read_multiline_string (lexer_on (''|'' @ [LF] @ ''  a'' @ [LF] @ [LF] @ ''  b'' @ [LF] @ ''x'')))
     = ''a'' @ [LF] @ [LF] @ ''b''"
  by code_simp

end
